theory Spec2Isabelle
  imports Main "HOL-Library.Sublist" "HOL-Library.AList" "HOL-Library.Word"
begin

unbundle bit_operations_syntax

chapter \<open>Kitty graphics subsystem of ghostty-web\<close>

text \<open>
  A shallow embedding of the Kitty graphics code of the repository: the sequence parser
  (\<^verbatim>\<open>kitty-parser.ts\<close>), the image store (\<^verbatim>\<open>graphics-storage.ts\<close>), the Base64 codec
  (\<^verbatim>\<open>image-decoder.ts\<close>) and the orchestrator (\<^verbatim>\<open>graphics-manager.ts\<close>).

  Conventions. A JavaScript string is a \<^typ>\<open>string\<close>, one \<^typ>\<open>char\<close> per code unit, so
  the model covers the code units 0 to 255. A number that comes from the text of a command
  is a \<open>jsnum\<close>, an integer or NaN; a length, a size in bytes, a dimension of a decoded
  image, a limit, a time and a cursor position is an \<^typ>\<open>int\<close>. An exception is the
  \<open>Inl\<close> of a sum. A \<^verbatim>\<open>Map\<close> is an association list in
  insertion order with \<^const>\<open>AList.update\<close> for \<^verbatim>\<open>set\<close> and \<^const>\<open>AList.delete\<close> for
  \<^verbatim>\<open>delete\<close>.
\<close>

section \<open>JavaScript string primitives\<close>

text \<open>\<^verbatim>\<open>s.substring(a, b)\<close>: both indices are clamped to the length and swapped when \<open>a > b\<close>.\<close>

definition substring :: "'a list \<Rightarrow> nat \<Rightarrow> nat \<Rightarrow> 'a list" where
  "substring s a b =
     (let a' = min a (length s); b' = min b (length s)
      in take (max a' b' - min a' b') (drop (min a' b') s))"

text \<open>The first index at which \<open>pat\<close> occurs in \<open>s\<close>.\<close>

fun index_of :: "'a list \<Rightarrow> 'a list \<Rightarrow> nat option" where
  "index_of pat [] = (if pat = [] then Some 0 else None)"
| "index_of pat (c # cs) =
     (if prefix pat (c # cs) then Some 0 else map_option Suc (index_of pat cs))"

text \<open>
  \<^verbatim>\<open>s.indexOf(pat, from)\<close> for a non-empty pattern; \<open>None\<close> is the source's \<open>-1\<close>.
\<close>

definition indexOf :: "'a list \<Rightarrow> 'a list \<Rightarrow> nat \<Rightarrow> nat option" where
  "indexOf s pat from = map_option (\<lambda>i. i + from) (index_of pat (drop from s))"

definition str_includes :: "'a list \<Rightarrow> 'a list \<Rightarrow> bool" where
  "str_includes s pat = (indexOf s pat 0 \<noteq> None)"

text \<open>\<^verbatim>\<open>s.split(sep)\<close> for a one-character separator.\<close>

fun split_on :: "char \<Rightarrow> string \<Rightarrow> string list" where
  "split_on sep [] = [[]]"
| "split_on sep (c # cs) =
     (if c = sep then [] # split_on sep cs
      else (case split_on sep cs of w # ws \<Rightarrow> (c # w) # ws | [] \<Rightarrow> [[c]]))"

section \<open>JavaScript numbers\<close>

text \<open>
  \<^verbatim>\<open>Number.parseInt\<close> gives an integer or NaN, and the code keeps a NaN: it tests a
  field against \<^verbatim>\<open>undefined\<close> only. So the numbers of a command, and what the store
  receives from them (ids, rows, columns, sizes in cells, offsets, z-index), are integers or
  NaN. An operation with NaN gives NaN and a comparison with NaN is false. The operator
  \<^verbatim>\<open>===\<close>, which \<^verbatim>\<open>Array.prototype.indexOf\<close> uses too, is false when a side is NaN; a
  \<^verbatim>\<open>Map\<close> compares keys with SameValueZero and does find the key NaN, which is the
  equality of the datatype. Not modelled: the rounding of an integer beyond \<open>2\<^sup>5\<^sup>3\<close> to a
  double (for more than 20 digits the result of \<^verbatim>\<open>parseInt\<close> is left to the
  implementation), Infinity and fractions.
\<close>

datatype jsnum = NaN | Num int

definition strict_eq :: "jsnum \<Rightarrow> jsnum \<Rightarrow> bool" where
  "strict_eq a b = (a \<noteq> NaN \<and> a = b)"





text \<open>
  \<^verbatim>\<open>a.indexOf(x)\<close> followed by \<^verbatim>\<open>a.splice(idx, 1)\<close> when the index is not \<open>-1\<close>: the
  first element that is \<^verbatim>\<open>===\<close> to \<open>x\<close> is removed, and none when \<open>x\<close> is NaN.
\<close>

definition splice_first :: "jsnum \<Rightarrow> jsnum list \<Rightarrow> jsnum list" where
  "splice_first x xs = (if x = NaN then xs else remove1 x xs)"

section \<open>Sequence parser\<close>

subsection \<open>Markers\<close>

definition ESC :: char where
  "ESC = CHR 0x1B"

definition BSL :: char where
  "BSL = CHR 0x5C"

definition APC_START :: string where
  "APC_START = [ESC, CHR ''_'', CHR ''G'']"

definition ST :: string where
  "ST = [ESC, BSL]"

definition TMUX_PASSTHROUGH_START :: string where
  "TMUX_PASSTHROUGH_START = [ESC] @ ''Ptmux;'' @ [ESC]"

subsection \<open>unwrapTmuxPassthrough\<close>

text \<open>
  The inner \<^verbatim>\<open>for\<close> loop of \<^verbatim>\<open>unwrapTmuxPassthrough\<close>: the index of the first
  \<^verbatim>\<open>ESC \\<close> at or after \<open>i\<close> that is not preceded by an \<open>ESC\<close>; a pair that is preceded by
  one is skipped together with its backslash.
\<close>

function find_outer_terminator :: "string \<Rightarrow> nat \<Rightarrow> nat \<Rightarrow> nat option" where
  "find_outer_terminator data innerStart i =
     (if i + 1 < length data then
        (if data ! i = ESC \<and> data ! (i + 1) = BSL then
           (if i > innerStart \<and> data ! (i - 1) = ESC
            then find_outer_terminator data innerStart (i + 2)
            else Some i)
         else find_outer_terminator data innerStart (i + 1))
      else None)"
  by pat_completeness auto
termination
  by (relation "measure (\<lambda>(data, innerStart, i). length data - i)") auto

declare find_outer_terminator.simps [simp del]

text \<open>\<^verbatim>\<open>inner.replace(/\x1b\x1b/g, ESC)\<close>: every pair of escapes, left to right, becomes one.\<close>

fun unescape_esc :: "string \<Rightarrow> string" where
  "unescape_esc (a # b # cs) =
     (if a = ESC \<and> b = ESC then ESC # unescape_esc cs else a # unescape_esc (b # cs))"
| "unescape_esc cs = cs"

lemma index_of_ge: "index_of pat s = Some i \<Longrightarrow> i \<le> length s"
  by (induction s arbitrary: i) (auto split: if_splits)

lemma indexOf_ge: "indexOf s pat from = Some i \<Longrightarrow> from \<le> i"
  by (auto simp: indexOf_def)

lemma find_outer_terminator_ge:
  "find_outer_terminator data innerStart i = Some e \<Longrightarrow> i \<le> e"
proof (induction data innerStart i rule: find_outer_terminator.induct)
  case (1 data innerStart i)
  show ?case
  proof (cases "i + 1 < length data")
    case False
    with "1.prems" show ?thesis by (simp add: find_outer_terminator.simps [of data innerStart i])
  next
    case True
    note inb = True
    show ?thesis
    proof (cases "data ! i = ESC \<and> data ! (i + 1) = BSL")
      case False
      with inb "1.prems" have "find_outer_terminator data innerStart (i + 1) = Some e"
        by (simp add: find_outer_terminator.simps [of data innerStart i] split: if_splits)
      with "1.IH"(2) [OF inb False] show ?thesis by simp
    next
      case True
      note hit = True
      show ?thesis
      proof (cases "i > innerStart \<and> data ! (i - 1) = ESC")
        case True
        with inb hit "1.prems" have "find_outer_terminator data innerStart (i + 2) = Some e"
          by (simp add: find_outer_terminator.simps [of data innerStart i])
        with "1.IH"(1) [OF inb hit True] show ?thesis by simp
      next
        case False
        with inb hit "1.prems" show ?thesis
          by (auto simp: find_outer_terminator.simps [of data innerStart i])
      qed
    qed
  qed
qed

text \<open>
  The outer \<^verbatim>\<open>while\<close> loop of \<^verbatim>\<open>unwrapTmuxPassthrough\<close>, with the source's variables
  \<open>pos\<close> and \<open>result\<close>.
\<close>

function unwrap_loop :: "string \<Rightarrow> nat \<Rightarrow> string \<Rightarrow> string" where
  "unwrap_loop data pos result =
     (if pos < length data then
        (case indexOf data TMUX_PASSTHROUGH_START pos of
           None \<Rightarrow> result @ drop pos data
         | Some startIdx \<Rightarrow>
             (let result1 = result @ substring data pos startIdx;
                  innerStart = startIdx + length TMUX_PASSTHROUGH_START
              in (case find_outer_terminator data innerStart innerStart of
                    None \<Rightarrow> result1 @ drop startIdx data
                  | Some endIdx \<Rightarrow>
                      unwrap_loop data (endIdx + 2)
                        (result1 @ unescape_esc (substring data innerStart endIdx)))))
      else result)"
  by pat_completeness auto
termination
proof (relation "measure (\<lambda>(data, pos, result). length data - pos)", goal_cases)
  case 1
  show ?case by simp
next
  case (2 data pos result startIdx result1 innerStart endIdx)
  from 2(2) have "pos \<le> startIdx" by (rule indexOf_ge)
  moreover from 2(5) have "innerStart \<le> endIdx" by (rule find_outer_terminator_ge)
  moreover from 2(4) have "startIdx \<le> innerStart" by simp
  ultimately show ?case using 2(1) by simp
qed

declare unwrap_loop.simps [simp del]

definition unwrapTmuxPassthrough :: "string \<Rightarrow> string" where
  "unwrapTmuxPassthrough data = unwrap_loop data 0 []"

subsection \<open>Control data and commands\<close>

text \<open>
  \<^verbatim>\<open>KittyCommand\<close>. A numeric field holds what \<^verbatim>\<open>Number.parseInt(v, 10)\<close> reads, NaN
  where the value has no decimal prefix. The four source-rectangle fields are never set by
  the parser. The field \<^verbatim>\<open>more\<close> is \<open>more_chunks\<close> (\<open>more\<close> is reserved).
\<close>

record KittyCommand =
  action :: string
  payload :: "string option"
  imageId :: "jsnum option"
  imageNumber :: "jsnum option"
  placementId :: "jsnum option"
  format :: "jsnum option"
  transmission :: "string option"
  compression :: "string option"
  more_chunks :: "bool option"
  width :: "jsnum option"
  height :: "jsnum option"
  displayWidth :: "jsnum option"
  displayHeight :: "jsnum option"
  srcX :: "jsnum option"
  srcY :: "jsnum option"
  srcWidth :: "jsnum option"
  srcHeight :: "jsnum option"
  cellX :: "jsnum option"
  cellY :: "jsnum option"
  offsetX :: "jsnum option"
  offsetY :: "jsnum option"
  zIndex :: "jsnum option"
  cursorMovement :: "jsnum option"
  quiet :: "jsnum option"
  deleteTarget :: "string option"

record KittyParseResult =
  command :: KittyCommand
  startIndex :: nat
  endIndex :: nat

text \<open>The white space that \<^verbatim>\<open>parseInt\<close> skips and that \<^verbatim>\<open>\s\<close> matches, below code unit 256.\<close>

definition is_space :: "char \<Rightarrow> bool" where
  "is_space c = (of_char c \<in> {9, 10, 11, 12, 13, 32, 160 :: nat})"

definition is_digit :: "char \<Rightarrow> bool" where
  "is_digit c = (48 \<le> (of_char c :: nat) \<and> (of_char c :: nat) \<le> 57)"

definition digits_value :: "string \<Rightarrow> nat" where
  "digits_value ds = foldl (\<lambda>a c. 10 * a + (of_char c - 48)) 0 ds"

text \<open>
  \<^verbatim>\<open>Number.parseInt(v, 10)\<close>: leading white space, an optional sign, then the longest run
  of decimal digits, NaN when there is no digit.
\<close>

definition parseInt10 :: "string \<Rightarrow> jsnum" where
  "parseInt10 v =
     (let s = dropWhile is_space v;
          neg = (case s of c # _ \<Rightarrow> c = CHR ''-'' | [] \<Rightarrow> False);
          r = (case s of c # cs \<Rightarrow> if c = CHR ''-'' \<or> c = CHR ''+'' then cs else s | [] \<Rightarrow> []);
          ds = takeWhile is_digit r
      in if ds = [] then NaN
         else Num (if neg then - int (digits_value ds) else int (digits_value ds)))"

definition parseControlData :: "string \<Rightarrow> (string \<times> string) list" where
  "parseControlData controlStr =
     (if controlStr = [] then []
      else foldl
             (\<lambda>params pair.
                case indexOf pair ''='' 0 of
                  Some eqIndex \<Rightarrow>
                    if eqIndex > 0
                    then AList.update (substring pair 0 eqIndex) (drop (eqIndex + 1) pair) params
                    else params
                | None \<Rightarrow> params)
             [] (split_on (CHR '','') controlStr))"

text \<open>A string that is present and not empty (the source's truthiness test).\<close>

definition truthy :: "string option \<Rightarrow> string option" where
  "truthy v = (case v of Some s \<Rightarrow> if s = [] then None else Some s | None \<Rightarrow> None)"

definition getNum :: "(string \<times> string) list \<Rightarrow> string \<Rightarrow> jsnum option" where
  "getNum params key = (case map_of params key of Some v \<Rightarrow> Some (parseInt10 v) | None \<Rightarrow> None)"

definition paramsToCommand :: "(string \<times> string) list \<Rightarrow> string \<Rightarrow> KittyCommand" where
  "paramsToCommand params pl =
     \<lparr> action = (case truthy (map_of params ''a'') of Some a \<Rightarrow> a | None \<Rightarrow> ''T''),
       payload = truthy (Some pl),
       imageId = getNum params ''i'',
       imageNumber = getNum params ''I'',
       placementId = getNum params ''p'',
       format = getNum params ''f'',
       transmission = truthy (map_of params ''t''),
       compression = truthy (map_of params ''o''),
       more_chunks = map_option (\<lambda>m. m = ''1'') (map_of params ''m''),
       width = getNum params ''s'',
       height = getNum params ''v'',
       displayWidth = getNum params ''c'',
       displayHeight = getNum params ''r'',
       srcX = None, srcY = None, srcWidth = None, srcHeight = None,
       cellX = getNum params ''X'',
       cellY = getNum params ''Y'',
       offsetX = getNum params ''x'',
       offsetY = getNum params ''y'',
       zIndex = getNum params ''z'',
       cursorMovement = getNum params ''C'',
       quiet = getNum params ''q'',
       deleteTarget = truthy (map_of params ''d'') \<rparr>"

text \<open>
  \<^verbatim>\<open>parseSequence\<close>. The source returns \<^verbatim>\<open>null\<close> when parsing throws; no step of the
  parsing throws, so the result is always present.
\<close>

definition parseSequence :: "string \<Rightarrow> nat \<Rightarrow> nat \<Rightarrow> KittyParseResult option" where
  "parseSequence content startIdx endIdx =
     (let (controlStr, pl) =
            (case indexOf content '';'' 0 of
               None \<Rightarrow> (content, [])
             | Some semicolonIdx \<Rightarrow>
                 (substring content 0 semicolonIdx, drop (semicolonIdx + 1) content))
      in Some \<lparr> command = paramsToCommand (parseControlData controlStr) pl,
                 startIndex = startIdx, endIndex = endIdx \<rparr>)"

subsection \<open>KittyParser.extract\<close>

text \<open>The method \<^verbatim>\<open>extract\<close> is \<open>kitty_extract\<close> below (\<open>extract\<close> is a command name).\<close>

record ExtractResult =
  cleanedData :: string
  commands :: "KittyParseResult list"
  hasGraphics :: bool
  fullData :: string

record KittyParser =
  pendingData :: string

text \<open>
  The \<^verbatim>\<open>while\<close> loop of \<^verbatim>\<open>extract\<close> with the source's variables \<open>pos\<close>,
  \<open>cleanedData\<close> and \<open>commands\<close>; the third component of the result is the value that
  the loop leaves in \<^verbatim>\<open>this.pendingData\<close>, which \<^verbatim>\<open>extract\<close> has emptied before.
\<close>

function extract_loop ::
  "string \<Rightarrow> nat \<Rightarrow> string \<Rightarrow> KittyParseResult list \<Rightarrow> string \<times> KittyParseResult list \<times> string"
where
  "extract_loop full pos cleaned cmds =
     (if pos < length full then
        (case indexOf full APC_START pos of
           None \<Rightarrow> (cleaned @ drop pos full, cmds, [])
         | Some startIdx \<Rightarrow>
             (case indexOf full ST startIdx of
                None \<Rightarrow> (cleaned @ substring full pos startIdx, cmds, drop startIdx full)
              | Some endIdx \<Rightarrow>
                  extract_loop full (endIdx + length ST)
                    (cleaned @ substring full pos startIdx)
                    (case parseSequence (substring full (startIdx + length APC_START) endIdx)
                            startIdx (endIdx + length ST) of
                       Some parsed \<Rightarrow> cmds @ [parsed]
                     | None \<Rightarrow> cmds)))
      else (cleaned, cmds, []))"
  by pat_completeness auto
termination
proof (relation "measure (\<lambda>(full, pos, cleaned, cmds). length full - pos)", goal_cases)
  case 1
  show ?case by simp
next
  case (2 full pos cleaned cmds startIdx endIdx)
  from 2(2) have "pos \<le> startIdx" by (rule indexOf_ge)
  moreover from 2(3) have "startIdx \<le> endIdx" by (rule indexOf_ge)
  ultimately show ?case using 2(1) by (simp add: ST_def)
qed

declare extract_loop.simps [simp del]

definition kitty_extract :: "KittyParser \<Rightarrow> string \<Rightarrow> ExtractResult \<times> KittyParser" where
  "kitty_extract p data =
     (let full0 = pendingData p @ data;
          full = (if str_includes full0 TMUX_PASSTHROUGH_START
                  then unwrapTmuxPassthrough full0 else full0);
          (cleaned, cmds, pending) = extract_loop full 0 [] []
      in (\<lparr> cleanedData = cleaned, commands = cmds, hasGraphics = (cmds \<noteq> []),
             fullData = full \<rparr>,
          p\<lparr> pendingData := pending \<rparr>))"

definition hasGraphicsSequence :: "string \<Rightarrow> bool" where
  "hasGraphicsSequence data =
     (str_includes data APC_START \<or> str_includes data TMUX_PASSTHROUGH_START)"

definition hasPendingData :: "KittyParser \<Rightarrow> bool" where
  "hasPendingData p = (length (pendingData p) > 0)"

section \<open>Protocol codec\<close>

text \<open>
  Exceptions of the codec and of the orchestrator. \<open>RangeError\<close> is what
  \<^verbatim>\<open>new Uint8Array(n)\<close> throws for a negative \<open>n\<close>; \<open>Error\<close> carries the message of a
  \<^verbatim>\<open>throw new Error(...)\<close>; \<open>BrowserError\<close> is a failure of a browser interface
  (\<^verbatim>\<open>DecompressionStream\<close>, \<^verbatim>\<open>ImageData\<close>, \<^verbatim>\<open>createImageBitmap\<close>).
\<close>

datatype error = RangeError | Error string | BrowserError

type_synonym bytes = "8 word list"

subsection \<open>Base64\<close>

definition BASE64_CHARS :: string where
  "BASE64_CHARS = ''ABCDEFGHIJKLMNOPQRSTUVWXYZabcdefghijklmnopqrstuvwxyz0123456789+/''"

text \<open>
  \<^verbatim>\<open>BASE64_LOOKUP\<close>, a zero-filled table indexed by code unit that the module fills in a
  loop over \<^verbatim>\<open>BASE64_CHARS\<close>.
\<close>

definition BASE64_LOOKUP :: "nat \<Rightarrow> nat" where
  "BASE64_LOOKUP =
     foldl (\<lambda>tbl i. tbl(of_char (BASE64_CHARS ! i) := i)) (\<lambda>_. 0) [0..<length BASE64_CHARS]"

text \<open>The two character tests of \<^verbatim>\<open>base64ToBytes\<close>, on code units.\<close>

definition is_b64_or_urlsafe :: "nat \<Rightarrow> bool" where
  "is_b64_or_urlsafe c =
     ((65 \<le> c \<and> c \<le> 90) \<or> (97 \<le> c \<and> c \<le> 122) \<or> (48 \<le> c \<and> c \<le> 57)
      \<or> c = 43 \<or> c = 47 \<or> c = 45 \<or> c = 95)"

definition is_b64 :: "nat \<Rightarrow> bool" where
  "is_b64 c =
     ((65 \<le> c \<and> c \<le> 90) \<or> (97 \<le> c \<and> c \<le> 122) \<or> (48 \<le> c \<and> c \<le> 57)
      \<or> c = 43 \<or> c = 47)"

text \<open>The counting loop: \<open>(validLen, padding)\<close>.\<close>

fun count_valid :: "string \<Rightarrow> nat \<times> nat \<Rightarrow> nat \<times> nat" where
  "count_valid [] (validLen, padding) = (validLen, padding)"
| "count_valid (ch # rest) (validLen, padding) =
     (if is_b64_or_urlsafe (of_char ch) then count_valid rest (validLen + 1, padding)
      else if (of_char ch :: nat) = 61 then count_valid rest (validLen, padding + 1)
      else count_valid rest (validLen, padding))"

text \<open>
  The decoding loop. \<open>bits\<close> is a 32-bit integer, as \<^verbatim>\<open><<\<close> and \<^verbatim>\<open>|\<close> make it;
  \<^verbatim>\<open>>>\<close> is the arithmetic shift. \<open>out\<close> holds the bytes written so far, so \<open>outIdx\<close>
  is its length.
\<close>

fun decode_loop :: "string \<Rightarrow> nat \<Rightarrow> 32 word \<Rightarrow> nat \<Rightarrow> bytes \<Rightarrow> bytes" where
  "decode_loop [] outputLen bits collected out = out"
| "decode_loop (ch # rest) outputLen bits collected out =
     (if length out < outputLen then
        (let c0 = (of_char ch :: nat);
             c1 = (if c0 = 45 then 43 else c0);
             c = (if c1 = 95 then 47 else c1)
         in if \<not> is_b64 c then decode_loop rest outputLen bits collected out
            else
              (let bits' = push_bit 6 bits OR of_nat (BASE64_LOOKUP c);
                   collected' = collected + 6
               in if collected' \<ge> 8
                  then decode_loop rest outputLen bits' (collected' - 8)
                         (out @ [ucast (signed_drop_bit (collected' - 8) bits' AND 0xff)])
                  else decode_loop rest outputLen bits' collected' out))
      else out)"

text \<open>
  \<^verbatim>\<open>base64ToBytes\<close>. The output array has \<open>outputLen\<close> zero bytes before the loop writes
  into it; a negative \<open>outputLen\<close> makes \<^verbatim>\<open>new Uint8Array(outputLen)\<close> throw.
\<close>

definition base64ToBytes :: "string \<Rightarrow> error + bytes" where
  "base64ToBytes base64 =
     (let (validLen, padding) = count_valid base64 (0, 0);
          outputLen = (int (validLen + padding) * 3) div 4 - int padding
      in if outputLen < 0 then Inl RangeError
         else (let out = decode_loop base64 (nat outputLen) 0 0 []
               in Inr (out @ replicate (nat outputLen - length out) 0)))"

text \<open>
  \<^verbatim>\<open>bytesToBase64\<close>: the loop takes the bytes three at a time, a missing second or third
  byte reads as 0 and writes \<^verbatim>\<open>=\<close>.
\<close>

definition b64_char :: "32 word \<Rightarrow> char" where
  "b64_char i = BASE64_CHARS ! unat i"

fun bytesToBase64 :: "bytes \<Rightarrow> string" where
  "bytesToBase64 [] = []"
| "bytesToBase64 [b1] =
     [b64_char (drop_bit 2 (ucast b1)),
      b64_char (push_bit 4 (ucast b1 AND 0x03) OR drop_bit 4 0),
      CHR ''='', CHR ''='']"
| "bytesToBase64 [b1, b2] =
     [b64_char (drop_bit 2 (ucast b1)),
      b64_char (push_bit 4 (ucast b1 AND 0x03) OR drop_bit 4 (ucast b2)),
      b64_char (push_bit 2 (ucast b2 AND 0x0f) OR drop_bit 6 0),
      CHR ''='']"
| "bytesToBase64 (b1 # b2 # b3 # rest) =
     [b64_char (drop_bit 2 (ucast b1)),
      b64_char (push_bit 4 (ucast b1 AND 0x03) OR drop_bit 4 (ucast b2)),
      b64_char (push_bit 2 (ucast b2 AND 0x0f) OR drop_bit 6 (ucast b3)),
      b64_char (ucast b3 AND 0x3f)] @ bytesToBase64 rest"

subsection \<open>combineChunksToBytes\<close>

text \<open>Decode each chunk in turn; the first exception ends the loop.\<close>

fun decode_chunks :: "string list \<Rightarrow> error + bytes list" where
  "decode_chunks [] = Inr []"
| "decode_chunks (chunk # rest) =
     (if chunk = [] then decode_chunks rest
      else (case base64ToBytes chunk of
              Inl e \<Rightarrow> Inl e
            | Inr b \<Rightarrow> (case decode_chunks rest of Inl e \<Rightarrow> Inl e | Inr bs \<Rightarrow> Inr (b # bs))))"

definition combineChunksToBytes :: "string list \<Rightarrow> error + bytes" where
  "combineChunksToBytes chunks =
     (if length chunks = 0 then Inr []
      else if length chunks = 1 then base64ToBytes (hd chunks)
      else (case decode_chunks chunks of Inl e \<Rightarrow> Inl e | Inr decoded \<Rightarrow> Inr (concat decoded)))"

section \<open>Image store\<close>

subsection \<open>Data\<close>

text \<open>
  An \<^verbatim>\<open>ImageBitmap\<close> is a browser object; the code reads its two dimensions and calls
  \<^verbatim>\<open>close()\<close> on it, which changes nothing that the store holds.
\<close>

record ImageBitmap =
  bm_width :: int
  bm_height :: int

record StoredImage =
  si_id :: jsnum
  si_format :: int
  si_width :: int
  si_height :: int
  si_data :: bytes
  si_bitmap :: "ImageBitmap option"
  byteSize :: int
  lastAccessed :: int

text \<open>
  \<^verbatim>\<open>ImagePlacement\<close>. The field \<^verbatim>\<open>image\<close>, a reference to the stored image object, is
  left out: no operation of the store reads it.
\<close>

record ImagePlacement =
  p_id :: string
  p_imageId :: jsnum
  p_placementId :: jsnum
  bufferRow :: jsnum
  bufferCol :: jsnum
  p_offsetX :: jsnum
  p_offsetY :: jsnum
  p_displayWidth :: jsnum
  p_displayHeight :: jsnum
  p_srcX :: jsnum
  p_srcY :: jsnum
  p_srcWidth :: jsnum
  p_srcHeight :: jsnum
  p_zIndex :: jsnum

record ChunkBuffer =
  cb_imageId :: jsnum
  cb_format :: int
  cb_width :: "jsnum option"
  cb_height :: "jsnum option"
  cb_compression :: "string option"
  chunks :: "string list"

record GraphicsOptions =
  opt_enabled :: "bool option"
  opt_maxCacheMemory :: "int option"
  opt_maxImages :: "int option"
  opt_maxPlacements :: "int option"

record GraphicsStorage =
  images :: "(jsnum \<times> StoredImage) list"
  accessOrder :: "jsnum list"
  placements :: "(string \<times> ImagePlacement) list"
  placementsByRow :: "(jsnum \<times> string list) list"
  chunkBuffers :: "(jsnum \<times> ChunkBuffer) list"
  memoryUsage :: int
  maxMemory :: int
  maxImages :: int
  maxPlacements :: int

definition new_storage :: "GraphicsOptions \<Rightarrow> GraphicsStorage" where
  "new_storage options =
     \<lparr> images = [], accessOrder = [], placements = [], placementsByRow = [],
       chunkBuffers = [], memoryUsage = 0,
       maxMemory = (case opt_maxCacheMemory options of Some m \<Rightarrow> m | None \<Rightarrow> 100 * 1024 * 1024),
       maxImages = (case opt_maxImages options of Some m \<Rightarrow> m | None \<Rightarrow> 1000),
       maxPlacements = (case opt_maxPlacements options of Some m \<Rightarrow> m | None \<Rightarrow> 10000) \<rparr>"

subsection \<open>Placements\<close>

definition removePlacement :: "string \<Rightarrow> GraphicsStorage \<Rightarrow> bool \<times> GraphicsStorage" where
  "removePlacement key s =
     (case map_of (placements s) key of
        None \<Rightarrow> (False, s)
      | Some placement \<Rightarrow>
          (let row = bufferRow placement;
               byRow = (case map_of (placementsByRow s) row of
                          None \<Rightarrow> placementsByRow s
                        | Some rowSet \<Rightarrow>
                            (let rowSet' = removeAll key rowSet
                             in if length rowSet' = 0
                                then AList.delete row (placementsByRow s)
                                else AList.update row rowSet' (placementsByRow s)))
           in (True, s\<lparr> placementsByRow := byRow,
                        placements := AList.delete key (placements s) \<rparr>)))"

definition setPlacement :: "ImagePlacement \<Rightarrow> GraphicsStorage \<Rightarrow> GraphicsStorage" where
  "setPlacement placement s =
     (let key = p_id placement;
          s1 = (if map_of (placements s) key \<noteq> None then snd (removePlacement key s) else s);
          s2 = (if int (length (placements s1)) \<ge> maxPlacements s1
                then (case placements s1 of
                        (oldest, _) # _ \<Rightarrow>
                          if oldest \<noteq> [] then snd (removePlacement oldest s1) else s1
                      | [] \<Rightarrow> s1)
                else s1);
          row = bufferRow placement;
          rowSet = (case map_of (placementsByRow s2) row of Some r \<Rightarrow> r | None \<Rightarrow> [])
      in s2\<lparr> placements := AList.update key placement (placements s2),
              placementsByRow :=
                AList.update row (if key \<in> set rowSet then rowSet else rowSet @ [key])
                  (placementsByRow s2) \<rparr>)"

definition getPlacement :: "string \<Rightarrow> GraphicsStorage \<Rightarrow> ImagePlacement option" where
  "getPlacement key s = map_of (placements s) key"




subsection \<open>Images\<close>

text \<open>
  \<^verbatim>\<open>removeImage\<close>. The loop over the placement map removes entries while it iterates;
  a \<^verbatim>\<open>Map\<close> iterator still visits every entry that it has not passed, so the loop runs
  over the entries present at its start. The image with the id NaN is found by the map, but
  none of its placements by \<^verbatim>\<open>placement.imageId === id\<close> and not its entry in
  \<^verbatim>\<open>accessOrder\<close> by \<^verbatim>\<open>indexOf\<close>.
\<close>

definition removeImage :: "jsnum \<Rightarrow> GraphicsStorage \<Rightarrow> bool \<times> GraphicsStorage" where
  "removeImage ident s =
     (case map_of (images s) ident of
        None \<Rightarrow> (False, s)
      | Some img \<Rightarrow>
          (let s1 = foldl (\<lambda>st (key, placement).
                             if strict_eq (p_imageId placement) ident
                             then snd (removePlacement key st)
                             else st)
                      s (placements s)
           in (True, s1\<lparr> memoryUsage := memoryUsage s1 - byteSize img,
                         accessOrder := splice_first ident (accessOrder s1),
                         images := AList.delete ident (images s1) \<rparr>)))"

definition hasImage :: "jsnum \<Rightarrow> GraphicsStorage \<Rightarrow> bool" where
  "hasImage ident s = (map_of (images s) ident \<noteq> None)"

text \<open>
  The two \<^verbatim>\<open>while\<close> loops of \<^verbatim>\<open>evictIfNeeded\<close>. Nothing in a loop bounds its number of
  rounds, so each is a partial function: \<open>None\<close> is a loop that does not end.
\<close>

partial_function (option) evict_count :: "GraphicsStorage \<Rightarrow> GraphicsStorage option" where
  "evict_count s =
     (if int (length (images s)) \<ge> maxImages s \<and> length (accessOrder s) > 0
      then evict_count (snd (removeImage (hd (accessOrder s)) s))
      else Some s)"

partial_function (option) evict_memory :: "int \<Rightarrow> GraphicsStorage \<Rightarrow> GraphicsStorage option" where
  "evict_memory additionalBytes s =
     (if memoryUsage s + additionalBytes > maxMemory s \<and> length (accessOrder s) > 0
      then evict_memory additionalBytes (snd (removeImage (hd (accessOrder s)) s))
      else Some s)"

declare evict_count.simps [code]
declare evict_memory.simps [code]

definition evictIfNeeded :: "int \<Rightarrow> GraphicsStorage \<Rightarrow> GraphicsStorage option" where
  "evictIfNeeded additionalBytes s =
     (case evict_count s of None \<Rightarrow> None | Some s1 \<Rightarrow> evict_memory additionalBytes s1)"

text \<open>\<^verbatim>\<open>storeImage\<close>; \<open>now\<close> is the value of \<^verbatim>\<open>Date.now()\<close>.\<close>

definition storeImage ::
  "jsnum \<Rightarrow> int \<Rightarrow> int \<Rightarrow> int \<Rightarrow> bytes \<Rightarrow> ImageBitmap option \<Rightarrow> int \<Rightarrow> GraphicsStorage
     \<Rightarrow> (StoredImage \<times> GraphicsStorage) option"
where
  "storeImage ident fmt w h dat bm now s =
     (case evictIfNeeded (int (length dat)) s of
        None \<Rightarrow> None
      | Some s1 \<Rightarrow>
          (let s2 = (if hasImage ident s1 then snd (removeImage ident s1) else s1);
               img = \<lparr> si_id = ident, si_format = fmt, si_width = w, si_height = h,
                         si_data = dat, si_bitmap = bm,
                         byteSize = int (length dat) + (if bm \<noteq> None then w * h * 4 else 0),
                         lastAccessed = now \<rparr>
           in Some (img,
                    s2\<lparr> images := AList.update ident img (images s2),
                        accessOrder := accessOrder s2 @ [ident],
                        memoryUsage := memoryUsage s2 + byteSize img \<rparr>)))"

text \<open>
  \<^verbatim>\<open>getImage\<close>; \<open>now\<close> is the value of \<^verbatim>\<open>Date.now()\<close>. For the id NaN \<^verbatim>\<open>indexOf\<close> gives
  \<open>-1\<close> and the access order stays as it is.
\<close>

definition getImage ::
  "jsnum \<Rightarrow> int \<Rightarrow> GraphicsStorage \<Rightarrow> StoredImage option \<times> GraphicsStorage"
where
  "getImage ident now s =
     (case map_of (images s) ident of
        None \<Rightarrow> (None, s)
      | Some img \<Rightarrow>
          (let img' = img\<lparr> lastAccessed := now \<rparr>
           in (Some img',
               s\<lparr> images := AList.update ident img' (images s),
                   accessOrder :=
                     (if ident \<noteq> NaN \<and> ident \<in> set (accessOrder s)
                      then splice_first ident (accessOrder s) @ [ident]
                      else accessOrder s) \<rparr>)))"

subsection \<open>Chunk buffers\<close>

definition addChunk ::
  "jsnum \<Rightarrow> string \<Rightarrow> int \<Rightarrow> jsnum option \<Rightarrow> jsnum option \<Rightarrow> string option \<Rightarrow> GraphicsStorage
     \<Rightarrow> ChunkBuffer \<times> GraphicsStorage"
where
  "addChunk ident chunk fmt w h compr s =
     (let buffer0 = (case map_of (chunkBuffers s) ident of
                       Some b \<Rightarrow> b
                     | None \<Rightarrow> \<lparr> cb_imageId = ident, cb_format = fmt, cb_width = w,
                                  cb_height = h, cb_compression = compr, chunks = [] \<rparr>);
          buffer1 = buffer0\<lparr> chunks := chunks buffer0 @ [chunk] \<rparr>;
          buffer2 = (if w \<noteq> None then buffer1\<lparr> cb_width := w \<rparr> else buffer1);
          buffer3 = (if h \<noteq> None then buffer2\<lparr> cb_height := h \<rparr> else buffer2);
          buffer4 = (if compr \<noteq> None then buffer3\<lparr> cb_compression := compr \<rparr> else buffer3)
      in (buffer4, s\<lparr> chunkBuffers := AList.update ident buffer4 (chunkBuffers s) \<rparr>))"

definition getAndClearChunks ::
  "jsnum \<Rightarrow> GraphicsStorage \<Rightarrow> ChunkBuffer option \<times> GraphicsStorage"
where
  "getAndClearChunks ident s =
     (case map_of (chunkBuffers s) ident of
        None \<Rightarrow> (None, s)
      | Some buffer \<Rightarrow> (Some buffer, s\<lparr> chunkBuffers := AList.delete ident (chunkBuffers s) \<rparr>))"

definition hasChunkBuffer :: "jsnum \<Rightarrow> GraphicsStorage \<Rightarrow> bool" where
  "hasChunkBuffer ident s = (map_of (chunkBuffers s) ident \<noteq> None)"

subsection \<open>Delete operations\<close>

definition deleteAll :: "GraphicsStorage \<Rightarrow> GraphicsStorage" where
  "deleteAll s =
     s\<lparr> images := [], placements := [], placementsByRow := [], accessOrder := [],
        memoryUsage := 0, chunkBuffers := [] \<rparr>"

definition deleteAtCursor :: "jsnum \<Rightarrow> jsnum \<Rightarrow> GraphicsStorage \<Rightarrow> GraphicsStorage" where
  "deleteAtCursor row col s =
     (case map_of (placementsByRow s) row of
        None \<Rightarrow> s
      | Some rowSet \<Rightarrow>
          foldl (\<lambda>st key.
                   case map_of (placements st) key of
                     Some placement \<Rightarrow>
                       if strict_eq (bufferCol placement) col
                       then snd (removePlacement key st) else st
                   | None \<Rightarrow> st)
            s rowSet)"

definition deleteRow :: "jsnum \<Rightarrow> GraphicsStorage \<Rightarrow> GraphicsStorage" where
  "deleteRow row s =
     (case map_of (placementsByRow s) row of
        None \<Rightarrow> s
      | Some rowSet \<Rightarrow> foldl (\<lambda>st key. snd (removePlacement key st)) s rowSet)"

definition deleteColumn :: "jsnum \<Rightarrow> GraphicsStorage \<Rightarrow> GraphicsStorage" where
  "deleteColumn col s =
     foldl (\<lambda>st (key, placement).
              if strict_eq (bufferCol placement) col then snd (removePlacement key st) else st)
       s (placements s)"

definition deleteByZIndex :: "jsnum \<Rightarrow> GraphicsStorage \<Rightarrow> GraphicsStorage" where
  "deleteByZIndex z s =
     foldl (\<lambda>st (key, placement).
              if strict_eq (p_zIndex placement) z then snd (removePlacement key st) else st)
       s (placements s)"

section \<open>Echo stripping\<close>

text \<open>
  The three regular expressions of \<^verbatim>\<open>stripEchoedResponses\<close> are written with the
  combinators below. A matcher takes the text at the position where a match is tried and
  returns the text after the match, or \<open>None\<close>. The combinators commit to the first
  choice that matches. For these expressions that is what the backtracking of the regular
  expression engine finds: an optional group or a run of digits is always followed by a
  character that the group or the run cannot contain, so giving back part of it never helps.
  The one place where backtracking matters, \<^verbatim>\<open>[^\s]*\<close> followed by \<^verbatim>\<open>\x1b\[K\<close>, has its own
  matcher.
\<close>

type_synonym matcher = "string \<Rightarrow> string option"

definition m_lit :: "string \<Rightarrow> matcher" where
  "m_lit l s = (if prefix l s then Some (drop (length l) s) else None)"

text \<open>\<^verbatim>\<open>\d+\<close>\<close>

definition m_digits :: matcher where
  "m_digits s = (if takeWhile is_digit s = [] then None else Some (dropWhile is_digit s))"

text \<open>\<^verbatim>\<open>[^\s]*\<close> with nothing required after it\<close>

definition m_nonspace :: matcher where
  "m_nonspace s = Some (dropWhile (\<lambda>c. \<not> is_space c) s)"

definition m_opt :: "matcher \<Rightarrow> matcher" where
  "m_opt p s = (case p s of Some r \<Rightarrow> Some r | None \<Rightarrow> Some s)"

definition m_alt :: "matcher \<Rightarrow> matcher \<Rightarrow> matcher" where
  "m_alt p q s = (case p s of Some r \<Rightarrow> Some r | None \<Rightarrow> q s)"

definition m_seq :: "matcher \<Rightarrow> matcher \<Rightarrow> matcher" where
  "m_seq p q s = (case p s of Some r \<Rightarrow> q r | None \<Rightarrow> None)"

text \<open>The last index at which \<open>pat\<close> occurs in \<open>s\<close>.\<close>

fun last_index_of :: "'a list \<Rightarrow> 'a list \<Rightarrow> nat option" where
  "last_index_of pat [] = (if pat = [] then Some 0 else None)"
| "last_index_of pat (c # cs) =
     (case last_index_of pat cs of
        Some i \<Rightarrow> Some (Suc i)
      | None \<Rightarrow> if prefix pat (c # cs) then Some 0 else None)"

text \<open>
  \<^verbatim>\<open>[^\s]*\<close> followed by the literal \<open>l\<close>: the engine takes the whole run of characters
  that are not white space and gives characters back until \<open>l\<close> follows, so the match ends
  with the last occurrence of \<open>l\<close> inside the run.
\<close>

definition m_nonspace_then :: "string \<Rightarrow> matcher" where
  "m_nonspace_then l s =
     (case last_index_of l (takeWhile (\<lambda>c. \<not> is_space c) s) of
        Some j \<Rightarrow> Some (drop (j + length l) s)
      | None \<Rightarrow> None)"

definition ERASE_LINE :: string where
  "ERASE_LINE = [ESC, CHR ''['', CHR ''K'']"

text \<open>\<^verbatim>\<open>(?:\x1b\\|\\)?\<close>\<close>

definition m_terminator :: matcher where
  "m_terminator = m_opt (m_alt (m_lit [ESC, BSL]) (m_lit [BSL]))"

text \<open>\<^verbatim>\<open>(?:OK|ENOENT:[^\s]*)\<close>\<close>

definition m_status :: matcher where
  "m_status = m_alt (m_lit ''OK'') (m_seq (m_lit ''ENOENT:'') m_nonspace)"

text \<open>\<^verbatim>\<open>(?:,p=\d+)?\<close>\<close>

definition m_placement :: matcher where
  "m_placement = m_opt (m_seq (m_lit '',p='') m_digits)"

text \<open>\<^verbatim>\<open>/(?:\x1b_|_)?G(?:i=\d+)?(?:,p=\d+)?;(?:OK|ENOENT:[^\s]*)(?:\x1b\\|\\)?/\<close>\<close>

definition withG :: matcher where
  "withG =
     m_seq (m_opt (m_alt (m_lit [ESC, CHR ''_'']) (m_lit ''_'')))
       (m_seq (m_lit ''G'')
          (m_seq (m_opt (m_seq (m_lit ''i='') m_digits))
             (m_seq m_placement (m_seq (m_lit '';'') (m_seq m_status m_terminator)))))"

text \<open>\<^verbatim>\<open>/i=\d+(?:,p=\d+)?;(?:OK|ENOENT:[^\s]*)(?:\x1b\\|\\)?/\<close>\<close>

definition bareResponse :: matcher where
  "bareResponse =
     m_seq (m_lit ''i='')
       (m_seq m_digits
          (m_seq m_placement (m_seq (m_lit '';'') (m_seq m_status m_terminator))))"

text \<open>
  \<^verbatim>\<open>/\x1b\[\d+;\d+H(i=\d+(?:,p=\d+)?;(?:OK|ENOENT:[^\s]*))(\x1b\[K)/\<close>; its second group
  is the literal \<^verbatim>\<open>\x1b[K\<close>, which is what the replacement \<^verbatim>\<open>$2\<close> puts back.
\<close>

definition framedResponse :: matcher where
  "framedResponse =
     m_seq (m_lit [ESC, CHR ''[''])
       (m_seq m_digits
          (m_seq (m_lit '';'')
             (m_seq m_digits
                (m_seq (m_lit ''H'')
                   (m_seq (m_lit ''i='')
                      (m_seq m_digits
                         (m_seq m_placement
                            (m_seq (m_lit '';'')
                               (m_alt (m_seq (m_lit ''OK'') (m_lit ERASE_LINE))
                                  (m_seq (m_lit ''ENOENT:'')
                                     (m_nonspace_then ERASE_LINE)))))))))))"

text \<open>
  \<^verbatim>\<open>s.replace(re, rep)\<close> for a global expression: matches are tried from left to right,
  and the search resumes after a match; after an empty match it steps over one character.
\<close>

function replace_all :: "matcher \<Rightarrow> string \<Rightarrow> string \<Rightarrow> string" where
  "replace_all m rep s =
     (case m s of
        None \<Rightarrow> (case s of [] \<Rightarrow> [] | c # cs \<Rightarrow> c # replace_all m rep cs)
      | Some rest \<Rightarrow>
          if length rest < length s then rep @ replace_all m rep rest
          else (case s of [] \<Rightarrow> rep | c # cs \<Rightarrow> rep @ c # replace_all m rep cs))"
  by pat_completeness auto
termination
  by (relation "measure (\<lambda>(m, rep, s). length s)") auto

declare replace_all.simps [simp del]

definition stripEchoedResponses :: "string \<Rightarrow> string" where
  "stripEchoedResponses data =
     replace_all bareResponse []
       (replace_all framedResponse ERASE_LINE (replace_all withG [] data))"

text \<open>
  \<^verbatim>\<open>stripUnicodePlaceholders\<close> removes the surrogate pair DBFB DEEE (hexadecimal code
  units) and the combining marks after it. No code unit below 256 is part of that pattern,
  so on the strings of this model the function changes nothing.
\<close>

definition stripUnicodePlaceholders :: "string \<Rightarrow> string" where
  "stripUnicodePlaceholders data = data"

section \<open>Image decoder\<close>

text \<open>
  The browser and the terminal around the graphics code. \<open>inflate\<close> is
  \<^verbatim>\<open>DecompressionStream("deflate")\<close> (absent when the runtime has none), \<open>pngBitmap\<close> is
  \<^verbatim>\<open>createImageBitmap\<close> on a PNG blob, \<open>rawBitmap\<close> is \<^verbatim>\<open>new ImageData\<close> followed by
  \<^verbatim>\<open>createImageBitmap\<close>. \<open>clock\<close> and \<open>cursorAt\<close> give the value of \<^verbatim>\<open>Date.now()\<close>
  and of the cursor callback at the \<open>n\<close>-th reading; \<open>cellMetrics\<close> is the cell size in
  pixels, taken as two positive integers.
\<close>

record Browser =
  inflate :: "(bytes \<Rightarrow> error + bytes) option"
  pngBitmap :: "bytes \<Rightarrow> error + ImageBitmap"
  rawBitmap :: "bytes \<Rightarrow> int \<Rightarrow> int \<Rightarrow> error + ImageBitmap"
  clock :: "nat \<Rightarrow> int"
  cursorAt :: "nat \<Rightarrow> int \<times> int"
  cellMetrics :: "int \<times> int"

record DecodeResult =
  d_bitmap :: ImageBitmap
  d_data :: bytes
  d_width :: int
  d_height :: int
  d_byteSize :: int

definition decompressZlib :: "Browser \<Rightarrow> bytes \<Rightarrow> error + bytes" where
  "decompressZlib env dat =
     (case inflate env of
        None \<Rightarrow> Inl (Error ''DecompressionStream not available - zlib not supported'')
      | Some f \<Rightarrow> f dat)"

text \<open>
  \<^verbatim>\<open>rgbToRgba\<close>; a read past the end of \<open>rgb\<close> gives \<^verbatim>\<open>undefined\<close>, which the byte array
  stores as 0.
\<close>

definition byte_at :: "bytes \<Rightarrow> nat \<Rightarrow> 8 word" where
  "byte_at b i = (if i < length b then b ! i else 0)"

definition rgbToRgba :: "bytes \<Rightarrow> int \<Rightarrow> int \<Rightarrow> error + bytes" where
  "rgbToRgba rgb w h =
     (let pixelCount = w * h
      in if pixelCount * 4 < 0 then Inl RangeError
         else Inr (concat (map (\<lambda>i. [byte_at rgb (i * 3), byte_at rgb (i * 3 + 1),
                                        byte_at rgb (i * 3 + 2), 255])
                             [0..<nat pixelCount])))"

definition rawRgbaToImageBitmap :: "Browser \<Rightarrow> bytes \<Rightarrow> int \<Rightarrow> int \<Rightarrow> error + ImageBitmap" where
  "rawRgbaToImageBitmap env rgba w h =
     (let expectedLen = w * h * 4
      in if expectedLen < 0 then Inl RangeError
         else rawBitmap env
                (take (nat expectedLen) rgba @ replicate (nat expectedLen - length rgba) 0) w h)"

text \<open>
  \<^verbatim>\<open>decodeFromBytes\<close>: inflate when the compression is \<^verbatim>\<open>z\<close>, then one branch per
  format. A width or height that is NaN passes the test against \<^verbatim>\<open>undefined\<close>; the two
  typed arrays of \<^verbatim>\<open>rgbToRgba\<close> and \<^verbatim>\<open>rawRgbaToImageBitmap\<close> then have the length 0 and
  \<^verbatim>\<open>new ImageData\<close> throws on the empty data.
\<close>

definition decodeFromBytes ::
  "Browser \<Rightarrow> bytes \<Rightarrow> int \<Rightarrow> jsnum option \<Rightarrow> jsnum option \<Rightarrow> string option
     \<Rightarrow> error + DecodeResult"
where
  "decodeFromBytes env bytes0 fmt w h compr =
     (case (if compr = Some ''z'' then decompressZlib env bytes0 else Inr bytes0) of
        Inl e \<Rightarrow> Inl e
      | Inr b \<Rightarrow>
          if fmt = 100 then
            (case pngBitmap env b of
               Inl e \<Rightarrow> Inl e
             | Inr bm \<Rightarrow> Inr \<lparr> d_bitmap = bm, d_data = b, d_width = bm_width bm,
                                d_height = bm_height bm, d_byteSize = int (length b) \<rparr>)
          else if fmt = 32 \<or> fmt = 24 then
            (case (w, h) of
               (Some (Num width'), Some (Num height')) \<Rightarrow>
                 (case (if fmt = 24 then rgbToRgba b width' height' else Inr b) of
                    Inl e \<Rightarrow> Inl e
                  | Inr rgba \<Rightarrow>
                      (case rawRgbaToImageBitmap env rgba width' height' of
                         Inl e \<Rightarrow> Inl e
                       | Inr bm \<Rightarrow> Inr \<lparr> d_bitmap = bm, d_data = b, d_width = width',
                                          d_height = height', d_byteSize = int (length b) \<rparr>))
             | (Some _, Some _) \<Rightarrow> Inl BrowserError
             | _ \<Rightarrow> Inl (Error ''Width and height required for raw pixel formats''))
          else Inl (Error ''Unsupported format''))"

text \<open>
  \<^verbatim>\<open>decode\<close>: Base64 first; the rest of its body is the body of \<^verbatim>\<open>decodeFromBytes\<close>.
\<close>

definition decode ::
  "Browser \<Rightarrow> string \<Rightarrow> int \<Rightarrow> jsnum option \<Rightarrow> jsnum option \<Rightarrow> string option
     \<Rightarrow> error + DecodeResult"
where
  "decode env pl fmt w h compr =
     (case base64ToBytes pl of
        Inl e \<Rightarrow> Inl e
      | Inr b \<Rightarrow> decodeFromBytes env b fmt w h compr)"

section \<open>Orchestrator\<close>

text \<open>
  The state of a \<^verbatim>\<open>GraphicsManager\<close>. A callback that the code only tests for presence is
  a flag. \<open>wasmWrites\<close> and \<open>popupCalls\<close> record the calls of the write callback and of
  the image display callback; \<open>tick\<close> counts the readings of the clock and of the cursor.
  \<^verbatim>\<open>sendResponse\<close> returns at once in the source and has no counterpart here.
\<close>

record GraphicsManager =
  parser :: KittyParser
  storage :: GraphicsStorage
  enabled :: bool
  hasCursorCallback :: bool
  hasWriteToWasmCallback :: bool
  hasCellMetricsCallback :: bool
  hasImageDisplayCallback :: bool
  nextImageId :: int
  needsRender :: bool
  pendingChunkImageId :: "jsnum option"
  wasmWrites :: "string list"
  popupCalls :: "(ImageBitmap \<times> jsnum) list"
  tick :: nat

definition new_manager :: "GraphicsOptions \<Rightarrow> GraphicsManager" where
  "new_manager options =
     \<lparr> parser = \<lparr> pendingData = [] \<rparr>, storage = new_storage options,
       enabled = (case opt_enabled options of Some e \<Rightarrow> e | None \<Rightarrow> True),
       hasCursorCallback = False, hasWriteToWasmCallback = False,
       hasCellMetricsCallback = False, hasImageDisplayCallback = False,
       nextImageId = 1, needsRender = False, pendingChunkImageId = None,
       wasmWrites = [], popupCalls = [], tick = 0 \<rparr>"

text \<open>
  The result of a method of the orchestrator: \<open>None\<close> when a loop of the store does not
  end, \<open>Some (Inl (e, m))\<close> when the exception \<open>e\<close> leaves the method with the manager in
  state \<open>m\<close>, \<open>Some (Inr r)\<close> when the method returns \<open>r\<close>.
\<close>

type_synonym 'a outcome = "(error \<times> GraphicsManager + 'a) option"

text \<open>
  The text of a number in a template string, for the key of a placement: \<^verbatim>\<open>NaN\<close>, or the
  decimal digits.
\<close>

function nat_digits :: "nat \<Rightarrow> string" where
  "nat_digits n =
     (if n < 10 then [char_of (48 + n)] else nat_digits (n div 10) @ [char_of (48 + n mod 10)])"
  by pat_completeness auto
termination
  by (relation "measure (\<lambda>n. n)") auto

declare nat_digits.simps [simp del]

definition int_string :: "int \<Rightarrow> string" where
  "int_string i = (if i < 0 then CHR ''-'' # nat_digits (nat (- i)) else nat_digits (nat i))"

definition num_string :: "jsnum \<Rightarrow> string" where
  "num_string x = (case x of NaN \<Rightarrow> ''NaN'' | Num i \<Rightarrow> int_string i)"

definition placement_key :: "jsnum \<Rightarrow> jsnum \<Rightarrow> string" where
  "placement_key imgId plcId = num_string imgId @ '':'' @ num_string plcId"

text \<open>\<^verbatim>\<open>Math.ceil(a / b)\<close> for integers with \<open>b > 0\<close>.\<close>

definition ceil_div :: "int \<Rightarrow> int \<Rightarrow> int" where
  "ceil_div a b = - ((- a) div b)"

definition read_cursor :: "Browser \<Rightarrow> GraphicsManager \<Rightarrow> (int \<times> int) \<times> GraphicsManager" where
  "read_cursor env m =
     (if hasCursorCallback m then (cursorAt env (tick m), m\<lparr> tick := tick m + 1 \<rparr>)
      else ((0, 0), m))"

text \<open>
  \<^verbatim>\<open>createPlacement\<close>. \<^verbatim>\<open>Date.now() & 0xffffff\<close> keeps the low 24 bits of the time.
\<close>

definition createPlacement ::
  "Browser \<Rightarrow> KittyCommand \<Rightarrow> jsnum \<Rightarrow> GraphicsManager \<Rightarrow> GraphicsManager"
where
  "createPlacement env cmd imgId m =
     (case getImage imgId (clock env (tick m)) (storage m) of
        (None, _) \<Rightarrow> m
      | (Some img, st) \<Rightarrow>
          (let m1 = m\<lparr> storage := st, tick := tick m + 1 \<rparr>;
               ((cursorRow, cursorCol), m2) = read_cursor env m1;
               row = (case cellY cmd of Some y \<Rightarrow> y | None \<Rightarrow> Num cursorRow);
               col = (case cellX cmd of Some x \<Rightarrow> x | None \<Rightarrow> Num cursorCol);
               (cw, ch) = (if hasCellMetricsCallback m2 then cellMetrics env else (8, 16));
               dw = (case displayWidth cmd of
                       Some d \<Rightarrow> d | None \<Rightarrow> Num (ceil_div (si_width img) cw));
               dh = (case displayHeight cmd of
                       Some d \<Rightarrow> d | None \<Rightarrow> Num (ceil_div (si_height img) ch));
               (plcId, m3) =
                 (case placementId cmd of
                    Some q \<Rightarrow> (q, m2)
                  | None \<Rightarrow> (Num (clock env (tick m2) mod 2 ^ 24), m2\<lparr> tick := tick m2 + 1 \<rparr>));
               placement =
                 \<lparr> p_id = placement_key imgId plcId, p_imageId = imgId, p_placementId = plcId,
                   bufferRow = row, bufferCol = col,
                   p_offsetX = (case offsetX cmd of Some x \<Rightarrow> x | None \<Rightarrow> Num 0),
                   p_offsetY = (case offsetY cmd of Some y \<Rightarrow> y | None \<Rightarrow> Num 0),
                   p_displayWidth = dw, p_displayHeight = dh,
                   p_srcX = (case srcX cmd of Some x \<Rightarrow> x | None \<Rightarrow> Num 0),
                   p_srcY = (case srcY cmd of Some y \<Rightarrow> y | None \<Rightarrow> Num 0),
                   p_srcWidth = (case srcWidth cmd of
                                   Some x \<Rightarrow> x | None \<Rightarrow> Num (si_width img)),
                   p_srcHeight = (case srcHeight cmd of
                                    Some y \<Rightarrow> y | None \<Rightarrow> Num (si_height img)),
                   p_zIndex = (case zIndex cmd of Some z \<Rightarrow> z | None \<Rightarrow> Num 0) \<rparr>
           in m3\<lparr> storage := setPlacement placement (storage m3), needsRender := True \<rparr>))"

text \<open>
  The part of \<^verbatim>\<open>handleTransmit\<close> from the test for missing data on, with the source's
  variables \<open>rawBytes\<close>, \<open>payload\<close>, \<open>format\<close>, \<open>width\<close>, \<open>height\<close> and \<open>compression\<close>.
  The \<^verbatim>\<open>try\<close> block covers the decoding, the store and the display; its \<^verbatim>\<open>catch\<close> logs
  and returns.
\<close>

definition transmit_decode ::
  "Browser \<Rightarrow> KittyCommand \<Rightarrow> bool \<Rightarrow> jsnum \<Rightarrow> bytes option \<Rightarrow> string \<Rightarrow> int
     \<Rightarrow> jsnum option \<Rightarrow> jsnum option \<Rightarrow> string option \<Rightarrow> GraphicsManager
     \<Rightarrow> GraphicsManager outcome"
where
  "transmit_decode env cmd display imgId rawBytes pl fmt w h compr m =
     (if rawBytes = None \<and> pl = [] then Some (Inr m)
      else
        (case (case rawBytes of
                 Some rb \<Rightarrow> decodeFromBytes env rb fmt w h compr
               | None \<Rightarrow> decode env pl fmt w h compr) of
           Inl e \<Rightarrow> Some (Inr m)
         | Inr decoded \<Rightarrow>
             (case storeImage imgId fmt (d_width decoded) (d_height decoded) (d_data decoded)
                     (Some (d_bitmap decoded)) (clock env (tick m)) (storage m) of
                None \<Rightarrow> None
              | Some (img, st) \<Rightarrow>
                  (let m1 = m\<lparr> storage := st, tick := tick m + 1 \<rparr>
                   in if display then
                        (if hasImageDisplayCallback m1
                         then Some (Inr (m1\<lparr> popupCalls :=
                                               popupCalls m1 @ [(d_bitmap decoded, imgId)] \<rparr>))
                         else Some (Inr (createPlacement env cmd (si_id img) m1)))
                      else Some (Inr m1)))))"

text \<open>
  \<^verbatim>\<open>handleTransmit\<close>. \<^verbatim>\<open>cmd.format || 32\<close> is 32 for a format that is absent, 0 or
  NaN. The call of \<^verbatim>\<open>combineChunksToBytes\<close> stands before the \<^verbatim>\<open>try\<close> block, so an
  exception of it leaves the method.
\<close>

definition handleTransmit ::
  "Browser \<Rightarrow> KittyCommand \<Rightarrow> bool \<Rightarrow> GraphicsManager \<Rightarrow> GraphicsManager outcome"
where
  "handleTransmit env cmd display m =
     (let (imgId, m1) =
            (case imageId cmd of
               Some i \<Rightarrow> (i, m)
             | None \<Rightarrow>
                 (case pendingChunkImageId m of
                    Some i \<Rightarrow> (i, m)
                  | None \<Rightarrow> (Num (nextImageId m), m\<lparr> nextImageId := nextImageId m + 1 \<rparr>)));
          pl = (case payload cmd of Some q \<Rightarrow> q | None \<Rightarrow> []);
          fmt = (case format cmd of Some (Num f) \<Rightarrow> if f = 0 then 32 else f | _ \<Rightarrow> 32)
      in if more_chunks cmd = Some True then
           Some (Inr (m1\<lparr> pendingChunkImageId := Some imgId,
                           storage := snd (addChunk imgId pl fmt (width cmd) (height cmd)
                                             (compression cmd) (storage m1)) \<rparr>))
         else
           (let m2 = m1\<lparr> pendingChunkImageId := None \<rparr>
            in if hasChunkBuffer imgId (storage m2) then
                 (case getAndClearChunks imgId (storage m2) of
                    (Some buffer, st) \<Rightarrow>
                      (let m3 = m2\<lparr> storage := st \<rparr>
                       in case combineChunksToBytes (chunks buffer @ [pl]) of
                            Inl e \<Rightarrow> Some (Inl (e, m3))
                          | Inr rawBytes \<Rightarrow>
                              transmit_decode env cmd display imgId (Some rawBytes) pl
                                (cb_format buffer)
                                (case width cmd of Some x \<Rightarrow> Some x | None \<Rightarrow> cb_width buffer)
                                (case height cmd of Some x \<Rightarrow> Some x | None \<Rightarrow> cb_height buffer)
                                (case compression cmd of Some x \<Rightarrow> Some x
                                 | None \<Rightarrow> cb_compression buffer)
                                m3)
                  | (None, st) \<Rightarrow>
                      transmit_decode env cmd display imgId None pl fmt (width cmd) (height cmd)
                        (compression cmd) (m2\<lparr> storage := st \<rparr>))
               else transmit_decode env cmd display imgId None pl fmt (width cmd) (height cmd)
                      (compression cmd) m2))"

definition handlePut :: "Browser \<Rightarrow> KittyCommand \<Rightarrow> GraphicsManager \<Rightarrow> GraphicsManager" where
  "handlePut env cmd m =
     (case imageId cmd of
        None \<Rightarrow> m
      | Some imgId \<Rightarrow>
          if \<not> hasImage imgId (storage m) then m else createPlacement env cmd imgId m)"

definition handleDelete :: "Browser \<Rightarrow> KittyCommand \<Rightarrow> GraphicsManager \<Rightarrow> GraphicsManager" where
  "handleDelete env cmd m =
     (let target = (case deleteTarget cmd of Some t \<Rightarrow> t | None \<Rightarrow> ''a'');
          m1 =
            (if target = ''a'' \<or> target = ''A'' then m\<lparr> storage := deleteAll (storage m) \<rparr>
             else if target = ''i'' \<or> target = ''I'' then
               (case imageId cmd of
                  Some i \<Rightarrow> m\<lparr> storage := snd (removeImage i (storage m)) \<rparr>
                | None \<Rightarrow> m)
             else if target = ''p'' \<or> target = ''P'' then
               (case (imageId cmd, placementId cmd) of
                  (Some i, Some q) \<Rightarrow>
                    m\<lparr> storage := snd (removePlacement (placement_key i q) (storage m)) \<rparr>
                | _ \<Rightarrow> m)
             else if target = ''c'' then
               (let ((row, col), m') = read_cursor env m
                in m'\<lparr> storage := deleteAtCursor (Num row) (Num col) (storage m') \<rparr>)
             else if target = ''r'' then
               (let ((row, col), m') = read_cursor env m
                in m'\<lparr> storage := deleteRow (Num row) (storage m') \<rparr>)
             else if target = ''C'' then
               (let ((row, col), m') = read_cursor env m
                in m'\<lparr> storage := deleteColumn (Num col) (storage m') \<rparr>)
             else if target = ''z'' then
               (case zIndex cmd of
                  Some z \<Rightarrow> m\<lparr> storage := deleteByZIndex z (storage m) \<rparr>
                | None \<Rightarrow> m)
             else m)
      in m1\<lparr> needsRender := True \<rparr>)"

text \<open>\<^verbatim>\<open>handleCommand\<close>; the query and the three unimplemented actions change nothing.\<close>

definition handleCommand :: "Browser \<Rightarrow> KittyCommand \<Rightarrow> GraphicsManager \<Rightarrow> GraphicsManager outcome" where
  "handleCommand env cmd m =
     (if action cmd = ''t'' then handleTransmit env cmd False m
      else if action cmd = ''T'' then handleTransmit env cmd True m
      else if action cmd = ''p'' then Some (Inr (handlePut env cmd m))
      else if action cmd = ''d'' then Some (Inr (handleDelete env cmd m))
      else Some (Inr m))"

text \<open>
  The loop of \<^verbatim>\<open>processDataSequentially\<close>; it returns the last value of \<open>lastEnd\<close>.
\<close>

fun sequential_loop ::
  "Browser \<Rightarrow> string \<Rightarrow> KittyParseResult list \<Rightarrow> nat \<Rightarrow> GraphicsManager
     \<Rightarrow> (nat \<times> GraphicsManager) outcome"
where
  "sequential_loop env full [] lastEnd m = Some (Inr (lastEnd, m))"
| "sequential_loop env full (parsed # rest) lastEnd m =
     (let textBefore = substring full lastEnd (startIndex parsed);
          m1 = (if textBefore \<noteq> [] \<and> hasWriteToWasmCallback m
                then m\<lparr> wasmWrites := wasmWrites m @ [textBefore] \<rparr> else m)
      in case handleCommand env (command parsed) m1 of
           None \<Rightarrow> None
         | Some (Inl e) \<Rightarrow> Some (Inl e)
         | Some (Inr m2) \<Rightarrow> sequential_loop env full rest (endIndex parsed) m2)"

definition processDataSequentially ::
  "Browser \<Rightarrow> ExtractResult \<Rightarrow> GraphicsManager \<Rightarrow> (string \<times> GraphicsManager) outcome"
where
  "processDataSequentially env result m =
     (case sequential_loop env (fullData result) (commands result) 0 m of
        None \<Rightarrow> None
      | Some (Inl e) \<Rightarrow> Some (Inl e)
      | Some (Inr (lastEnd, m1)) \<Rightarrow>
          (let remaining = drop lastEnd (fullData result);
               remaining1 =
                 (if hasPendingData (parser m1)
                  then (case indexOf remaining APC_START 0 of
                          Some apcStart \<Rightarrow> substring remaining 0 apcStart
                        | None \<Rightarrow> remaining)
                  else remaining)
           in Some (Inr (remaining1, m1))))"

text \<open>The loop of the fallback path of \<^verbatim>\<open>processData\<close>.\<close>

fun fallback_loop ::
  "Browser \<Rightarrow> KittyParseResult list \<Rightarrow> GraphicsManager \<Rightarrow> GraphicsManager outcome"
where
  "fallback_loop env [] m = Some (Inr m)"
| "fallback_loop env (parsed # rest) m =
     (case handleCommand env (command parsed) m of
        None \<Rightarrow> None
      | Some (Inl e) \<Rightarrow> Some (Inl e)
      | Some (Inr m1) \<Rightarrow> fallback_loop env rest m1)"

definition processData ::
  "Browser \<Rightarrow> string \<Rightarrow> GraphicsManager \<Rightarrow> (string \<times> GraphicsManager) outcome"
where
  "processData env data0 m =
     (if \<not> enabled m then Some (Inr (data0, m))
      else
        (let data = stripUnicodePlaceholders (stripEchoedResponses data0)
         in if \<not> hasGraphicsSequence data \<and> \<not> hasPendingData (parser m)
            then Some (Inr (data, m))
            else
              (let (result, p1) = kitty_extract (parser m) data;
                   m1 = m\<lparr> parser := p1 \<rparr>
               in if \<not> hasGraphics result then Some (Inr (data, m1))
                  else if hasWriteToWasmCallback m1 \<and> length (commands result) > 0
                  then processDataSequentially env result m1
                  else (case fallback_loop env (commands result) m1 of
                          None \<Rightarrow> None
                        | Some (Inl e) \<Rightarrow> Some (Inl e)
                        | Some (Inr m2) \<Rightarrow> Some (Inr (cleanedData result, m2))))))"

chapter \<open>Notions used in the statements\<close>

section \<open>Parser\<close>

text \<open>
  The text of \<open>full\<close> from \<open>pos\<close> up to \<open>lim\<close> that lies outside the ranges of the
  commands \<open>cs\<close>: the segment before each command, then the segment after the last one.
\<close>

fun outside_text :: "string \<Rightarrow> KittyParseResult list \<Rightarrow> nat \<Rightarrow> nat \<Rightarrow> string" where
  "outside_text full [] pos lim = substring full pos lim"
| "outside_text full (c # cs) pos lim =
     substring full pos (startIndex c) @ outside_text full cs (endIndex c) lim"

text \<open>
  The commands \<open>cs\<close> frame \<open>full\<close> from \<open>pos\<close> on: each range starts at or after the end
  of the one before, holds a start marker at its first index and an end marker in its last
  two, and ends at or before \<open>lim\<close>.
\<close>

fun frames_from :: "string \<Rightarrow> nat \<Rightarrow> KittyParseResult list \<Rightarrow> nat \<Rightarrow> bool" where
  "frames_from full pos [] lim = (pos \<le> lim)"
| "frames_from full pos (c # cs) lim =
     (pos \<le> startIndex c \<and> startIndex c + 5 \<le> endIndex c \<and> endIndex c \<le> length full
      \<and> prefix APC_START (drop (startIndex c) full)
      \<and> prefix ST (drop (endIndex c - 2) full)
      \<and> frames_from full (endIndex c) cs lim)"

text \<open>The position of the scan after the commands \<open>cs\<close>.\<close>

definition last_pos :: "nat \<Rightarrow> KittyParseResult list \<Rightarrow> nat" where
  "last_pos pos cs = (if cs = [] then pos else endIndex (last cs))"

text \<open>
  A chunk with text, one complete frame, more text and the beginning of a second frame, and
  what \<^const>\<open>kitty_extract\<close> returns for it.
\<close>

definition sample_chunk :: string where
  "sample_chunk = ''ab'' @ APC_START @ ''a=T;x'' @ ST @ ''cd'' @ APC_START @ ''a=t''"

definition sample_result :: ExtractResult where
  "sample_result =
     \<lparr> cleanedData = ''abcd'',
       commands = [\<lparr> command = paramsToCommand [(''a'', ''T'')] ''x'', startIndex = 2, endIndex = 12 \<rparr>],
       hasGraphics = True, fullData = sample_chunk \<rparr>"

definition sample_parser :: KittyParser where
  "sample_parser = \<lparr> pendingData = APC_START @ ''a=t'' \<rparr>"

text \<open>
  A browser in which every decoding succeeds, and a manager that holds the parser state
  left by the sample chunk and has a write callback.
\<close>

definition sample_env :: Browser where
  "sample_env =
     \<lparr> inflate = None,
       pngBitmap = (\<lambda>b. Inr \<lparr> bm_width = 1, bm_height = 1 \<rparr>),
       rawBitmap = (\<lambda>b w h. Inr \<lparr> bm_width = w, bm_height = h \<rparr>),
       clock = (\<lambda>n. 1000 + int n),
       cursorAt = (\<lambda>n. (0, 0)),
       cellMetrics = (8, 16) \<rparr>"

definition sample_manager :: GraphicsManager where
  "sample_manager =
     (new_manager \<lparr> opt_enabled = None, opt_maxCacheMemory = None, opt_maxImages = None,
                    opt_maxPlacements = None \<rparr>)
       \<lparr> parser := sample_parser, hasWriteToWasmCallback := True \<rparr>"

text \<open>
  A manager as the terminal makes it, with a write callback and a parser that holds nothing,
  and a chunk that ends inside a frame.
\<close>

definition plain_manager :: GraphicsManager where
  "plain_manager =
     (new_manager \<lparr> opt_enabled = None, opt_maxCacheMemory = None, opt_maxImages = None,
                    opt_maxPlacements = None \<rparr>)
       \<lparr> hasWriteToWasmCallback := True \<rparr>"

definition partial_chunk :: string where
  "partial_chunk = ''ab'' @ APC_START @ ''a=t,i=1,f=100''"

text \<open>
  A multiplexer wrapper that arrives in two chunks, cut inside the payload of the frame it
  carries.
\<close>

definition tmux_first_chunk :: string where
  "tmux_first_chunk = TMUX_PASSTHROUGH_START @ [ESC] @ ''_Ga=T;da''"

definition tmux_second_chunk :: string where
  "tmux_second_chunk = ''ta'' @ [ESC, ESC, BSL, ESC, BSL]"

section \<open>Image store\<close>





definition default_options :: GraphicsOptions where
  "default_options =
     \<lparr> opt_enabled = None, opt_maxCacheMemory = None, opt_maxImages = None,
       opt_maxPlacements = None \<rparr>"



text \<open>The sum of \<open>byteSize\<close> over the stored images.\<close>

definition total_byteSize :: "GraphicsStorage \<Rightarrow> int" where
  "total_byteSize s = sum_list (map (\<lambda>(k, img). byteSize img) (images s))"

text \<open>
  The public operations of the store that change it, and the states that a store reaches
  from its construction by these operations. (\<^verbatim>\<open>hasImage\<close>, \<^verbatim>\<open>getPlacement\<close>,
  \<^verbatim>\<open>getPlacementsInRange\<close>, \<^verbatim>\<open>getAllPlacements\<close>, \<^verbatim>\<open>hasChunkBuffer\<close> and \<^verbatim>\<open>getStats\<close>
  only read; \<^verbatim>\<open>dispose\<close> is \<^verbatim>\<open>deleteAll\<close>.)
\<close>

datatype store_op =
    StoreImage jsnum int int int bytes "ImageBitmap option" int
  | GetImage jsnum int
  | RemoveImage jsnum
  | SetPlacement ImagePlacement
  | RemovePlacement string
  | AddChunk jsnum string int "jsnum option" "jsnum option" "string option"
  | GetAndClearChunks jsnum
  | DeleteAll
  | DeleteAtCursor jsnum jsnum
  | DeleteRow jsnum
  | DeleteColumn jsnum
  | DeleteByZIndex jsnum

fun run_op :: "store_op \<Rightarrow> GraphicsStorage \<Rightarrow> GraphicsStorage option" where
  "run_op (StoreImage ident fmt w h dat bm now) s = map_option snd (storeImage ident fmt w h dat bm now s)"
| "run_op (GetImage ident now) s = Some (snd (getImage ident now s))"
| "run_op (RemoveImage ident) s = Some (snd (removeImage ident s))"
| "run_op (SetPlacement placement) s = Some (setPlacement placement s)"
| "run_op (RemovePlacement key) s = Some (snd (removePlacement key s))"
| "run_op (AddChunk ident chunk fmt w h compr) s = Some (snd (addChunk ident chunk fmt w h compr s))"
| "run_op (GetAndClearChunks ident) s = Some (snd (getAndClearChunks ident s))"
| "run_op DeleteAll s = Some (deleteAll s)"
| "run_op (DeleteAtCursor row col) s = Some (deleteAtCursor row col s)"
| "run_op (DeleteRow row) s = Some (deleteRow row s)"
| "run_op (DeleteColumn col) s = Some (deleteColumn col s)"
| "run_op (DeleteByZIndex z) s = Some (deleteByZIndex z s)"

inductive reachable :: "GraphicsStorage \<Rightarrow> bool" where
  start: "reachable (new_storage options)"
| step: "reachable s \<Longrightarrow> run_op op s = Some s' \<Longrightarrow> reachable s'"

text \<open>
  A consistent store: the image map has distinct keys, the memory total is the sum of the
  sizes, and the ids in the access order other than NaN are distinct and are ids of stored
  images. (An entry NaN of the access order is never removed, so it can stand there more
  than once and without an image.)
\<close>

definition store_ok :: "GraphicsStorage \<Rightarrow> bool" where
  "store_ok s =
     (distinct (map fst (images s))
      \<and> memoryUsage s = total_byteSize s
      \<and> distinct (filter (\<lambda>i. i \<noteq> NaN) (accessOrder s))
      \<and> (\<forall>i\<in>set (accessOrder s). i \<noteq> NaN \<longrightarrow> i \<in> set (map fst (images s))))"

text \<open>Two states that differ in placements and chunk buffers only.\<close>

definition same_images :: "GraphicsStorage \<Rightarrow> GraphicsStorage \<Rightarrow> bool" where
  "same_images s s' =
     (images s' = images s \<and> accessOrder s' = accessOrder s \<and> memoryUsage s' = memoryUsage s
      \<and> maxImages s' = maxImages s \<and> maxMemory s' = maxMemory s)"


text \<open>
  A store for one image at most, after an image with the id NaN and an image with the id 2:
  the second call has evicted the image NaN, whose entry in the access order stays.
\<close>

definition stale_store :: GraphicsStorage where
  "stale_store =
     (new_storage (default_options \<lparr> opt_maxImages := Some 1 \<rparr>))
       \<lparr> images := [(Num 2, \<lparr> si_id = Num 2, si_format = 100, si_width = 1, si_height = 1,
                           si_data = [7], si_bitmap = None, byteSize = 1, lastAccessed = 6 \<rparr>)],
         accessOrder := [NaN, Num 2], memoryUsage := 1 \<rparr>"

text \<open>
  A state in which the first loop of \<^verbatim>\<open>evictIfNeeded\<close> changes nothing and goes on: the
  count limit is reached and the head of the access order is not the id of a stored image.
\<close>

definition stuck :: "GraphicsStorage \<Rightarrow> bool" where
  "stuck s = (int (length (images s)) \<ge> maxImages s \<and> accessOrder s \<noteq> []
      \<and> map_of (images s) (hd (accessOrder s)) = None)"

text \<open>
  The scenario of the eviction claim: the arguments of a call of \<^const>\<open>storeImage\<close>, a list
  of such calls run in turn, the store after the first images have been stored and the first
  of them has been read with \<^const>\<open>getImage\<close>, and the store after one more image.
\<close>

record image_args =
  a_id :: jsnum
  a_format :: int
  a_width :: int
  a_height :: int
  a_data :: bytes
  a_bitmap :: "ImageBitmap option"
  a_now :: int

definition store_args :: "image_args \<Rightarrow> GraphicsStorage \<Rightarrow> GraphicsStorage option" where
  "store_args a s =
     map_option snd
       (storeImage (a_id a) (a_format a) (a_width a) (a_height a) (a_data a) (a_bitmap a)
          (a_now a) s)"

fun store_images :: "image_args list \<Rightarrow> GraphicsStorage \<Rightarrow> GraphicsStorage option" where
  "store_images [] s = Some s"
| "store_images (a # as) s =
     (case store_args a s of None \<Rightarrow> None | Some s' \<Rightarrow> store_images as s')"

definition args_byteSize :: "image_args \<Rightarrow> int" where
  "args_byteSize a =
     int (length (a_data a)) + (if a_bitmap a \<noteq> None then a_width a * a_height a * 4 else 0)"

text \<open>The ids of the stored images with their sizes, in the order of the image map.\<close>

definition sizes :: "GraphicsStorage \<Rightarrow> (jsnum \<times> int) list" where
  "sizes s = map (\<lambda>(k, img). (k, byteSize img)) (images s)"

definition args_size :: "image_args \<Rightarrow> jsnum \<times> int" where
  "args_size a = (a_id a, args_byteSize a)"

text \<open>
  The byte budget \<open>limit\<close> forces no eviction when the images \<open>as\<close> are stored one
  after the other into a store that holds \<open>used\<close> bytes: at each call the bytes held plus
  the length of the new data stay within the limit, which is the test of the second loop of
  \<^verbatim>\<open>evictIfNeeded\<close>.
\<close>

fun within_budget :: "int \<Rightarrow> int \<Rightarrow> image_args list \<Rightarrow> bool" where
  "within_budget limit used [] = True"
| "within_budget limit used (a # as) =
     (used + int (length (a_data a)) \<le> limit
      \<and> within_budget limit (used + args_byteSize a) as)"

text \<open>Images of one byte and of six bytes, and options with a limit on the number of images.\<close>

definition tiny :: "jsnum \<Rightarrow> image_args" where
  "tiny i = \<lparr> a_id = i, a_format = 100, a_width = 1, a_height = 1, a_data = [1],
             a_bitmap = None, a_now = 5 \<rparr>"

definition six_bytes :: "jsnum \<Rightarrow> image_args" where
  "six_bytes i = \<lparr> a_id = i, a_format = 100, a_width = 1, a_height = 1,
                  a_data = [1, 2, 3, 4, 5, 6], a_bitmap = None, a_now = 5 \<rparr>"

definition slots :: "int \<Rightarrow> GraphicsOptions" where
  "slots k = default_options \<lparr> opt_maxImages := Some k \<rparr>"

definition touched_store ::
  "GraphicsOptions \<Rightarrow> image_args list \<Rightarrow> int \<Rightarrow> GraphicsStorage option" where
  "touched_store options firstK touch_now =
     (case store_images firstK (new_storage options) of
        None \<Rightarrow> None
      | Some s1 \<Rightarrow> Some (snd (getImage (a_id (hd firstK)) touch_now s1)))"

definition lru_scenario ::
  "GraphicsOptions \<Rightarrow> image_args list \<Rightarrow> int \<Rightarrow> image_args \<Rightarrow> GraphicsStorage option" where
  "lru_scenario options firstK touch_now extra =
     (case touched_store options firstK touch_now of
        None \<Rightarrow> None
      | Some s2 \<Rightarrow> store_args extra s2)"


section \<open>Transmissions that fail to decode\<close>

text \<open>
  Five inputs with one image transmission each between the texts \<^verbatim>\<open>ab\<close> and \<^verbatim>\<open>ef\<close>: a
  transmission in two chunks whose first chunk is a lone padding character, the same payload
  in one piece, a format that does not exist, raw pixels without width and height, and a PNG
  transmission that decodes.
\<close>

definition bad_chunked :: string where
  "bad_chunked =
     ''ab'' @ APC_START @ ''a=t,i=1,m=1;='' @ ST @ ''cd'' @ APC_START @ ''a=t,i=1;AAAA'' @ ST @ ''ef''"

definition bad_single :: string where
  "bad_single = ''ab'' @ APC_START @ ''a=t,i=1;='' @ ST @ ''ef''"

definition bad_format :: string where
  "bad_format = ''ab'' @ APC_START @ ''a=T,i=1,f=7;A'' @ ST @ ''ef''"

definition no_size :: string where
  "no_size = ''ab'' @ APC_START @ ''a=T,i=1,f=32;A'' @ ST @ ''ef''"

definition good_single :: string where
  "good_single = ''ab'' @ APC_START @ ''a=T,i=1,f=100;A'' @ ST @ ''ef''"

text \<open>
  What a caller of \<^const>\<open>processData\<close> can see of an outcome: the exception, or the text
  returned, the texts written through the callback, the ids of the stored images and the
  keys of the placements.
\<close>

definition observed ::
  "(string \<times> GraphicsManager) outcome
     \<Rightarrow> (error + string \<times> string list \<times> jsnum list \<times> string list) option"
where
  "observed r =
     map_option
       (map_sum fst
          (\<lambda>(t, m). (t, wasmWrites m, map fst (images (storage m)),
                      map fst (placements (storage m))))) r"
chapter \<open>Properties\<close>

section \<open>Offsets of the parsed commands\<close>

lemma index_of_SomeD:
  "index_of pat s = Some i \<Longrightarrow> prefix pat (drop i s) \<and> (\<forall>j<i. \<not> prefix pat (drop j s))"
proof (induction s arbitrary: i)
  case Nil
  then show ?case by (auto split: if_splits)
next
  case (Cons c cs)
  show ?case
  proof (cases "prefix pat (c # cs)")
    case True
    with Cons.prems show ?thesis by simp
  next
    case False
    with Cons.prems obtain i' where i': "index_of pat cs = Some i'" "i = Suc i'" by auto
    from Cons.IH [OF i'(1)] have ih: "prefix pat (drop i' cs)" "\<forall>j<i'. \<not> prefix pat (drop j cs)"
      by auto
    have "\<not> prefix pat (drop j (c # cs))" if "j < i" for j
    proof (cases j)
      case 0
      with False show ?thesis by simp
    next
      case (Suc j')
      with that i'(2) ih(2) show ?thesis by simp
    qed
    with ih(1) i'(2) show ?thesis by simp
  qed
qed

lemma index_of_NoneD: "index_of pat s = None \<Longrightarrow> \<not> prefix pat (drop j s)"
proof (induction s arbitrary: j)
  case Nil
  then show ?case by (auto split: if_splits)
next
  case (Cons c cs)
  then show ?case by (cases j) (auto split: if_splits)
qed

lemma index_of_occurs:
  "prefix pat (drop j s) \<Longrightarrow> \<exists>i\<le>j. index_of pat s = Some i"
proof (cases "index_of pat s")
  case None
  assume "prefix pat (drop j s)"
  with index_of_NoneD [OF None, of j] show ?thesis by simp
next
  case (Some i)
  assume "prefix pat (drop j s)"
  with index_of_SomeD [OF Some] have "\<not> j < i" by blast
  with Some show ?thesis by auto
qed

lemma indexOf_SomeD:
  assumes "indexOf s pat from = Some i"
  shows "from \<le> i" and "prefix pat (drop i s)"
    and "\<And>j. from \<le> j \<Longrightarrow> j < i \<Longrightarrow> \<not> prefix pat (drop j s)"
proof -
  from assms obtain i0 where i0: "index_of pat (drop from s) = Some i0" "i = i0 + from"
    by (auto simp: indexOf_def)
  show "from \<le> i" using i0 by simp
  from index_of_SomeD [OF i0(1)] have p: "prefix pat (drop i0 (drop from s))"
    and n: "\<forall>j<i0. \<not> prefix pat (drop j (drop from s))" by auto
  from p show "prefix pat (drop i s)" using i0(2) by (simp add: add.commute)
  fix j assume "from \<le> j" "j < i"
  then have "j - from < i0" using i0(2) by simp
  with n have "\<not> prefix pat (drop (j - from) (drop from s))" by blast
  with \<open>from \<le> j\<close> show "\<not> prefix pat (drop j s)" by simp
qed

lemma indexOf_NoneD:
  assumes "indexOf s pat from = None" and "from \<le> j"
  shows "\<not> prefix pat (drop j s)"
proof -
  from assms(1) have "index_of pat (drop from s) = None" by (simp add: indexOf_def)
  from index_of_NoneD [OF this, of "j - from"] assms(2) show ?thesis by simp
qed

lemma indexOf_occurs:
  assumes "prefix pat (drop j s)" and "from \<le> j"
  shows "\<exists>i. indexOf s pat from = Some i \<and> i \<le> j"
proof -
  from assms have "prefix pat (drop (j - from) (drop from s))" by simp
  from index_of_occurs [OF this] obtain i0 where "i0 \<le> j - from" "index_of pat (drop from s) = Some i0"
    by blast
  with assms(2) show ?thesis by (auto simp: indexOf_def)
qed

lemma prefix_drop_nth:
  assumes "prefix p (drop i s)"
  shows "i + length p \<le> length s \<or> p = []" and "\<And>k. k < length p \<Longrightarrow> s ! (i + k) = p ! k"
proof -
  from assms obtain t where t: "drop i s = p @ t" by (auto simp: prefix_def)
  then have len: "length (drop i s) = length p + length t" by simp
  show "i + length p \<le> length s \<or> p = []"
  proof (cases "p = []")
    case False
    then have "1 \<le> length p" by (cases p) auto
    moreover from len have "length s - i = length p + length t" by simp
    ultimately show ?thesis by arith
  qed simp
  fix k assume k: "k < length p"
  with t have "drop i s ! k = p ! k" by (simp add: nth_append)
  moreover from len have "length s - i = length p + length t" by simp
  with k have "i + k < length s" by arith
  ultimately show "s ! (i + k) = p ! k" by simp
qed

lemma apc_at:
  assumes "prefix APC_START (drop i s)"
  shows "i + 3 \<le> length s" "s ! i = ESC" "s ! (i + 1) = CHR ''_''" "s ! (i + 2) = CHR ''G''"
  using prefix_drop_nth [OF assms] prefix_drop_nth(2) [OF assms, of 0]
    prefix_drop_nth(2) [OF assms, of 1] prefix_drop_nth(2) [OF assms, of 2]
  by (simp_all add: APC_START_def)

lemma st_at:
  assumes "prefix ST (drop e s)"
  shows "e + 2 \<le> length s" "s ! e = ESC" "s ! (e + 1) = BSL"
  using prefix_drop_nth [OF assms] prefix_drop_nth(2) [OF assms, of 0]
    prefix_drop_nth(2) [OF assms, of 1]
  by (simp_all add: ST_def)

lemma marker_chars: "ESC \<noteq> CHR ''_''" "ESC \<noteq> CHR ''G''" "ESC \<noteq> BSL" "BSL \<noteq> CHR ''_''"
  by (simp_all add: ESC_def BSL_def)

text \<open>An end marker found from a start marker on lies after the three characters of the start marker.\<close>

lemma st_after_apc:
  assumes a: "prefix APC_START (drop i s)" and e: "prefix ST (drop e s)" and "i \<le> e"
  shows "i + 3 \<le> e"
proof (rule ccontr)
  assume "\<not> i + 3 \<le> e"
  with \<open>i \<le> e\<close> consider "e = i" | "e = i + 1" | "e = i + 2" by linarith
  then show False
    using apc_at [OF a] st_at [OF e] marker_chars by cases auto
qed

text \<open>A start marker does not begin on the second character of an end marker.\<close>

lemma apc_not_inside_st:
  assumes a: "prefix APC_START (drop i s)" and e: "prefix ST (drop e s)" and "e < i"
  shows "e + 2 \<le> i"
proof (rule ccontr)
  assume "\<not> e + 2 \<le> i"
  with \<open>e < i\<close> have "i = e + 1" by linarith
  then show False using apc_at [OF a] st_at [OF e] marker_chars by auto
qed

lemma substring_le: "a \<le> b \<Longrightarrow> b \<le> length s \<Longrightarrow> substring s a b = take (b - a) (drop a s)"
  by (simp add: substring_def Let_def min_def max_def)

lemma substring_to_end: "a \<le> length s \<Longrightarrow> substring s a (length s) = drop a s"
  by (simp add: substring_le)

lemma frames_from_le: "frames_from full pos cs lim \<Longrightarrow> pos \<le> lim"
proof (induction cs arbitrary: pos)
  case Nil
  then show ?case by simp
next
  case (Cons c cs)
  from Cons.prems have "frames_from full (endIndex c) cs lim" "pos \<le> startIndex c"
    "startIndex c + 5 \<le> endIndex c" by simp_all
  with Cons.IH [of "endIndex c"] show ?case by linarith
qed

lemma parseSequence_Some:
  "\<exists>c. parseSequence content a b = Some \<lparr> command = c, startIndex = a, endIndex = b \<rparr>"
  by (simp add: parseSequence_def Let_def split: option.split prod.split)

lemma extract_loop_frames:
  "extract_loop full pos cleaned cmds = (cleaned', cmds', pend) \<Longrightarrow> pos \<le> length full \<Longrightarrow>
   \<exists>new. cmds' = cmds @ new
     \<and> frames_from full pos new (length full - length pend)
     \<and> cleaned' = cleaned @ outside_text full new pos (length full - length pend)
     \<and> pend = drop (length full - length pend) full
     \<and> (pend \<noteq> [] \<longrightarrow>
          indexOf full APC_START (last_pos pos new) = Some (length full - length pend)
          \<and> indexOf full ST (length full - length pend) = None)"
proof (induction full pos cleaned cmds arbitrary: cleaned' cmds' pend rule: extract_loop.induct)
  case (1 full pos cleaned cmds)
  note eq = "1.prems"(1) [unfolded extract_loop.simps [of full pos cleaned cmds]]
  show ?case
  proof (cases "pos < length full")
    case False
    with "1.prems"(2) have pl: "pos = length full" by simp
    from eq False have "cleaned' = cleaned" "cmds' = cmds" "pend = []" by simp_all
    with pl show ?thesis by (intro exI [of _ "[]"]) (simp add: substring_le)
  next
    case True
    note inb = True
    show ?thesis
    proof (cases "indexOf full APC_START pos")
      case None
      with eq inb have "cleaned' = cleaned @ drop pos full" "cmds' = cmds" "pend = []" by simp_all
      with inb show ?thesis by (intro exI [of _ "[]"]) (simp add: substring_le)
    next
      case (Some startIdx)
      note a = indexOf_SomeD [OF Some]
      from apc_at(1) [OF a(2)] have sl: "startIdx + 3 \<le> length full" .
      show ?thesis
      proof (cases "indexOf full ST startIdx")
        case None
        with eq inb Some have r: "cleaned' = cleaned @ substring full pos startIdx" "cmds' = cmds"
          "pend = drop startIdx full" by simp_all
        from r(3) sl have len: "length full - length pend = startIdx" by simp
        from r(3) sl have ne: "pend \<noteq> []" by auto
        show ?thesis
          using r len ne a(1) Some None
          by (intro exI [of _ "[]"]) (simp add: last_pos_def)
      next
        case (Some endIdx)
        note e = indexOf_SomeD [OF Some]
        from st_at(1) [OF e(2)] have el: "endIdx + 2 \<le> length full" .
        from st_after_apc [OF a(2) e(2) e(1)] have se: "startIdx + 3 \<le> endIdx" .
        obtain c where ps: "parseSequence (substring full (startIdx + length APC_START) endIdx)
            startIdx (endIdx + length ST) = Some \<lparr> command = c, startIndex = startIdx, endIndex = endIdx + length ST \<rparr>"
          using parseSequence_Some by blast
        define parsed where "parsed = \<lparr> command = c, startIndex = startIdx, endIndex = endIdx + 2 \<rparr>"
        have lst: "length ST = 2" by (simp add: ST_def)
        from eq inb \<open>indexOf full APC_START pos = Some startIdx\<close> Some ps
        have rec: "extract_loop full (endIdx + 2) (cleaned @ substring full pos startIdx) (cmds @ [parsed])
                     = (cleaned', cmds', pend)"
          by (simp add: lst parsed_def)
        have "\<exists>new. cmds' = (cmds @ [parsed]) @ new
           \<and> frames_from full (endIdx + 2) new (length full - length pend)
           \<and> cleaned' = (cleaned @ substring full pos startIdx)
                 @ outside_text full new (endIdx + 2) (length full - length pend)
           \<and> pend = drop (length full - length pend) full
           \<and> (pend \<noteq> [] \<longrightarrow>
                indexOf full APC_START (last_pos (endIdx + 2) new) = Some (length full - length pend)
                \<and> indexOf full ST (length full - length pend) = None)"
          using "1.IH" [OF inb \<open>indexOf full APC_START pos = Some startIdx\<close> Some, of cleaned' cmds' pend] rec el ps
          by (simp add: lst parsed_def)
        then obtain new where new: "cmds' = (cmds @ [parsed]) @ new"
           "frames_from full (endIdx + 2) new (length full - length pend)"
           "cleaned' = (cleaned @ substring full pos startIdx)
                 @ outside_text full new (endIdx + 2) (length full - length pend)"
           "pend = drop (length full - length pend) full"
           "pend \<noteq> [] \<longrightarrow>
                indexOf full APC_START (last_pos (endIdx + 2) new) = Some (length full - length pend)
                \<and> indexOf full ST (length full - length pend) = None"
          by blast
        have lp: "last_pos pos (parsed # new) = last_pos (endIdx + 2) new"
          by (simp add: last_pos_def parsed_def)
        show ?thesis
          using new a(1) a(2) e(2) se el lp
          by (intro exI [of _ "parsed # new"]) (simp add: parsed_def)
      qed
    qed
  qed
qed

lemma extract_loop_unmatched:
  "extract_loop full pos cleaned cmds = (cleaned', cmds', pend) \<Longrightarrow> pos \<le> s \<Longrightarrow>
   prefix APC_START (drop s full) \<Longrightarrow> indexOf full ST s = None \<Longrightarrow>
   pend \<noteq> [] \<and> length full - length pend \<le> s"
proof (induction full pos cleaned cmds arbitrary: cleaned' cmds' pend rule: extract_loop.induct)
  case (1 full pos cleaned cmds)
  note eq = "1.prems"(1) [unfolded extract_loop.simps [of full pos cleaned cmds]]
  from apc_at(1) [OF "1.prems"(3)] "1.prems"(2) have inb: "pos < length full" by simp
  from indexOf_occurs [OF "1.prems"(3) "1.prems"(2)]
  obtain startIdx where st: "indexOf full APC_START pos = Some startIdx" "startIdx \<le> s" by blast
  note a = indexOf_SomeD [OF st(1)]
  from apc_at(1) [OF a(2)] have sl: "startIdx + 3 \<le> length full" .
  show ?case
  proof (cases "indexOf full ST startIdx")
    case None
    with eq inb st(1) have "pend = drop startIdx full" by simp
    with sl st(2) show ?thesis by auto
  next
    case (Some endIdx)
    note e = indexOf_SomeD [OF Some]
    have "endIdx < s"
    proof (rule ccontr)
      assume "\<not> endIdx < s"
      then have "s \<le> endIdx" by simp
      from indexOf_NoneD [OF "1.prems"(4) this] e(2) show False by simp
    qed
    from apc_not_inside_st [OF "1.prems"(3) e(2) this] have le: "endIdx + 2 \<le> s" .
    obtain c where ps: "parseSequence (substring full (startIdx + length APC_START) endIdx)
        startIdx (endIdx + length ST) = Some \<lparr> command = c, startIndex = startIdx, endIndex = endIdx + length ST \<rparr>"
      using parseSequence_Some by blast
    have lst: "length ST = 2" by (simp add: ST_def)
    from eq inb st(1) Some ps
    have rec: "extract_loop full (endIdx + length ST) (cleaned @ substring full pos startIdx)
                 (case parseSequence (substring full (startIdx + length APC_START) endIdx)
                            startIdx (endIdx + length ST) of
                       Some parsed \<Rightarrow> cmds @ [parsed]
                     | None \<Rightarrow> cmds)
                 = (cleaned', cmds', pend)"
      by simp
    from "1.IH" [OF inb st(1) Some rec _ "1.prems"(3) "1.prems"(4)] le lst
    show ?thesis by simp
  qed
qed

lemma frames_from_props:
  "frames_from full pos cs lim \<Longrightarrow>
   (\<forall>c\<in>set cs. pos \<le> startIndex c \<and> startIndex c + 5 \<le> endIndex c \<and> endIndex c \<le> length full
        \<and> endIndex c \<le> lim
        \<and> prefix APC_START (drop (startIndex c) full) \<and> prefix ST (drop (endIndex c - 2) full))
   \<and> sorted_wrt (\<lambda>a b. endIndex a \<le> startIndex b) cs"
proof (induction cs arbitrary: pos)
  case Nil
  then show ?case by simp
next
  case (Cons c cs)
  from Cons.prems have f: "frames_from full (endIndex c) cs lim" and
    c: "pos \<le> startIndex c" "startIndex c + 5 \<le> endIndex c" "endIndex c \<le> length full"
       "prefix APC_START (drop (startIndex c) full)" "prefix ST (drop (endIndex c - 2) full)"
    by simp_all
  from Cons.IH [OF f] have ih:
    "\<forall>d\<in>set cs. endIndex c \<le> startIndex d \<and> startIndex d + 5 \<le> endIndex d \<and> endIndex d \<le> length full
        \<and> endIndex d \<le> lim
        \<and> prefix APC_START (drop (startIndex d) full) \<and> prefix ST (drop (endIndex d - 2) full)"
    "sorted_wrt (\<lambda>a b. endIndex a \<le> startIndex b) cs" by auto
  from frames_from_le [OF f] have "endIndex c \<le> lim" .
  with c ih show ?case by auto
qed

lemma slice_begins:
  assumes "prefix pat (drop a s)" and "a + length pat \<le> b" and "b \<le> length s"
  shows "prefix pat (substring s a b)"
proof -
  from assms obtain t where t: "drop a s = pat @ t" by (auto simp: prefix_def)
  from assms have "substring s a b = take (b - a) (drop a s)" by (simp add: substring_le)
  also have "\<dots> = pat @ take (b - a - length pat) t" using t assms(2) by simp
  finally show ?thesis by simp
qed

lemma slice_ends:
  assumes "prefix pat (drop (b - length pat) s)" and "a + length pat \<le> b" and "b \<le> length s"
  shows "suffix pat (substring s a b)"
proof -
  from assms obtain t where t: "drop (b - length pat) s = pat @ t" by (auto simp: prefix_def)
  from assms have "substring s a b = take (b - a) (drop a s)" by (simp add: substring_le)
  also have "b - a = (b - length pat - a) + length pat" using assms(2) by simp
  also have "take ((b - length pat - a) + length pat) (drop a s)
      = take (b - length pat - a) (drop a s) @ take (length pat) (drop (b - length pat - a) (drop a s))"
    by (rule take_add)
  also have "drop (b - length pat - a) (drop a s) = drop (b - length pat) s"
    using assms(2) by simp
  also have "take (length pat) (drop (b - length pat) s) = pat" using t by simp
  finally show ?thesis by (simp add: suffix_def)
qed

text \<open>
  Claim C10. For every result of \<^const>\<open>kitty_extract\<close>: the slice of \<open>fullData\<close> between
  the start and the end index of each command begins with the start marker and ends with
  the end marker; the end of a command is at or before the start of every later command;
  the pending text is the tail of \<open>fullData\<close>; and \<open>cleanedData\<close> is the concatenation
  of the segments of \<open>fullData\<close> outside the ranges of the commands, up to the start of
  the pending tail.
\<close>

theorem extract_offsets_valid:
  assumes "kitty_extract p data = (res, p')"
  shows "(\<forall>c\<in>set (commands res).
            startIndex c < endIndex c \<and> endIndex c \<le> length (fullData res)
            \<and> prefix APC_START (substring (fullData res) (startIndex c) (endIndex c))
            \<and> suffix ST (substring (fullData res) (startIndex c) (endIndex c)))
       \<and> sorted_wrt (\<lambda>a b. endIndex a \<le> startIndex b) (commands res)
       \<and> suffix (pendingData p') (fullData res)
       \<and> cleanedData res =
           outside_text (fullData res) (commands res) 0
             (length (fullData res) - length (pendingData p'))"
proof -
  define full where "full = fullData res"
  obtain cleaned cmds pend where loop: "extract_loop full 0 [] [] = (cleaned, cmds, pend)"
    by (cases "extract_loop full 0 [] []") auto
  from assms have r: "cleanedData res = cleaned" "commands res = cmds" "pendingData p' = pend"
    using loop unfolding full_def
    by (auto simp: kitty_extract_def Let_def split: prod.splits if_splits)
  from extract_loop_frames [OF loop] have
    fr: "frames_from full 0 cmds (length full - length pend)" and
    cl: "cleaned = outside_text full cmds 0 (length full - length pend)" and
    pd: "pend = drop (length full - length pend) full"
    by auto
  note pr = frames_from_props [OF fr]
  have "suffix pend full" by (subst pd) (rule suffix_drop)
  moreover have "startIndex c < endIndex c \<and> endIndex c \<le> length full
            \<and> prefix APC_START (substring full (startIndex c) (endIndex c))
            \<and> suffix ST (substring full (startIndex c) (endIndex c))" if "c \<in> set cmds" for c
  proof -
    from pr that have c: "startIndex c + 5 \<le> endIndex c" "endIndex c \<le> length full"
      "prefix APC_START (drop (startIndex c) full)" "prefix ST (drop (endIndex c - 2) full)" by auto
    have la: "length APC_START = 3" and ls: "length ST = 2"
      by (simp_all add: APC_START_def ST_def)
    have "prefix APC_START (substring full (startIndex c) (endIndex c))"
      using c la by (intro slice_begins) simp_all
    moreover have "suffix ST (substring full (startIndex c) (endIndex c))"
      using c ls by (intro slice_ends) simp_all
    ultimately show ?thesis using c by simp
  qed
  ultimately show ?thesis using pr cl r unfolding full_def by simp
qed

lemma sample_eval:
  "kitty_extract \<lparr> pendingData = [] \<rparr> sample_chunk = (sample_result, sample_parser)"
  by code_simp

theorem extract_offsets_valid_witness:
  "kitty_extract \<lparr> pendingData = [] \<rparr> sample_chunk = (sample_result, sample_parser)
   \<and> hd (commands sample_result) \<in> set (commands sample_result)
   \<and> startIndex (hd (commands sample_result)) < endIndex (hd (commands sample_result))
   \<and> endIndex (hd (commands sample_result)) \<le> length (fullData sample_result)
   \<and> prefix APC_START (substring (fullData sample_result)
         (startIndex (hd (commands sample_result))) (endIndex (hd (commands sample_result))))
   \<and> suffix ST (substring (fullData sample_result)
         (startIndex (hd (commands sample_result))) (endIndex (hd (commands sample_result))))
   \<and> sorted_wrt (\<lambda>a b. endIndex a \<le> startIndex b) (commands sample_result)
   \<and> suffix (pendingData sample_parser) (fullData sample_result)
   \<and> cleanedData sample_result =
         outside_text (fullData sample_result) (commands sample_result) 0
           (length (fullData sample_result) - length (pendingData sample_parser))"
proof -
  have "hd (commands sample_result) \<in> set (commands sample_result)"
    by (simp add: sample_result_def)
  with sample_eval extract_offsets_valid [OF sample_eval] show ?thesis by blast
qed

section \<open>Partial frames\<close>

text \<open>No command changes the state of the parser.\<close>

lemma read_cursor_parser: "parser (snd (read_cursor env m)) = parser m"
  by (simp add: read_cursor_def)

lemma createPlacement_parser: "parser (createPlacement env cmd i m) = parser m"
proof (cases "getImage i (clock env (tick m)) (storage m)")
  case (Pair a st)
  then show ?thesis
    by (cases a) (simp_all add: createPlacement_def Let_def split_beta read_cursor_parser
        split: option.split)
qed

lemma transmit_decode_parser:
  "transmit_decode env cmd display i rb pl fmt w h compr m = Some (Inr m') \<Longrightarrow> parser m' = parser m"
  by (auto simp: transmit_decode_def Let_def createPlacement_parser
      split: if_splits sum.splits option.splits prod.splits)

lemma handleTransmit_parser:
  assumes "handleTransmit env cmd display m = Some (Inr m')"
  shows "parser m' = parser m"
proof -
  define r where "r = (case imageId cmd of
               Some i \<Rightarrow> (i, m)
             | None \<Rightarrow>
                 (case pendingChunkImageId m of
                    Some i \<Rightarrow> (i, m)
                  | None \<Rightarrow> (Num (nextImageId m), m\<lparr> nextImageId := nextImageId m + 1 \<rparr>)))"
  have p1: "parser (snd r) = parser m" by (simp add: r_def split: option.split)
  show ?thesis
  proof (cases "more_chunks cmd = Some True")
    case True
    with assms p1 show ?thesis
      by (auto simp: handleTransmit_def Let_def split_beta r_def [symmetric])
  next
    case False
    note nm = False
    show ?thesis
    proof (cases "hasChunkBuffer (fst r) (storage (snd r))")
      case False
      with assms nm have "transmit_decode env cmd display (fst r) None
          (case payload cmd of Some q \<Rightarrow> q | None \<Rightarrow> [])
          (case format cmd of Some (Num f) \<Rightarrow> if f = 0 then 32 else f | _ \<Rightarrow> 32)
          (width cmd) (height cmd) (compression cmd) ((snd r)\<lparr> pendingChunkImageId := None \<rparr>) = Some (Inr m')"
        by (simp add: handleTransmit_def Let_def split_beta r_def [symmetric])
      from transmit_decode_parser [OF this] p1 show ?thesis by simp
    next
      case True
      obtain b st where g: "getAndClearChunks (fst r) (storage (snd r)) = (b, st)"
        by (cases "getAndClearChunks (fst r) (storage (snd r))") auto
      show ?thesis
      proof (cases b)
        case None
        with assms nm True g have "transmit_decode env cmd display (fst r) None
          (case payload cmd of Some q \<Rightarrow> q | None \<Rightarrow> [])
          (case format cmd of Some (Num f) \<Rightarrow> if f = 0 then 32 else f | _ \<Rightarrow> 32)
          (width cmd) (height cmd) (compression cmd) ((snd r)\<lparr> pendingChunkImageId := None, storage := st \<rparr>) = Some (Inr m')"
          by (simp add: handleTransmit_def Let_def split_beta r_def [symmetric])
        from transmit_decode_parser [OF this] p1 show ?thesis by simp
      next
        case (Some buffer)
        with assms nm True g obtain raw where
          "transmit_decode env cmd display (fst r) (Some raw)
            (case payload cmd of Some q \<Rightarrow> q | None \<Rightarrow> [])
            (cb_format buffer)
            (case width cmd of Some x \<Rightarrow> Some x | None \<Rightarrow> cb_width buffer)
            (case height cmd of Some x \<Rightarrow> Some x | None \<Rightarrow> cb_height buffer)
            (case compression cmd of Some x \<Rightarrow> Some x | None \<Rightarrow> cb_compression buffer)
            ((snd r)\<lparr> pendingChunkImageId := None, storage := st \<rparr>) = Some (Inr m')"
          by (simp add: handleTransmit_def Let_def split_beta r_def [symmetric] split: sum.splits)
        from transmit_decode_parser [OF this] p1 show ?thesis by simp
      qed
    qed
  qed
qed

lemma handlePut_parser: "parser (handlePut env cmd m) = parser m"
  by (auto simp: handlePut_def createPlacement_parser split: option.splits)

lemma handleDelete_parser: "parser (handleDelete env cmd m) = parser m"
  by (auto simp: handleDelete_def Let_def read_cursor_def split: option.splits prod.splits if_splits)

lemma handleCommand_parser:
  "handleCommand env cmd m = Some (Inr m') \<Longrightarrow> parser m' = parser m"
  by (auto simp: handleCommand_def handlePut_parser handleDelete_parser
      split: if_splits dest: handleTransmit_parser)

lemma sequential_loop_result:
  "sequential_loop env full cs lastEnd m = Some (Inr (le, m')) \<Longrightarrow>
   parser m' = parser m \<and> le = last_pos lastEnd cs"
proof (induction cs arbitrary: lastEnd m)
  case Nil
  then show ?case by (simp add: last_pos_def)
next
  case (Cons c cs)
  define m1 where "m1 = (if substring full lastEnd (startIndex c) \<noteq> [] \<and> hasWriteToWasmCallback m
                then m\<lparr> wasmWrites := wasmWrites m @ [substring full lastEnd (startIndex c)] \<rparr> else m)"
  have pm1: "parser m1 = parser m" by (simp add: m1_def)
  from Cons.prems obtain m2 where h: "handleCommand env (command c) m1 = Some (Inr m2)"
    and r: "sequential_loop env full cs (endIndex c) m2 = Some (Inr (le, m'))"
    by (auto simp: Let_def m1_def split: option.splits sum.splits)
  from Cons.IH [OF r] handleCommand_parser [OF h] pm1
  show ?case by (auto simp: last_pos_def)
qed

lemma outside_text_take:
  "frames_from full pos cs lim \<Longrightarrow> lim \<le> length full \<Longrightarrow>
   outside_text (take lim full) cs pos lim = outside_text full cs pos lim"
proof (induction cs arbitrary: pos)
  case Nil
  from Nil.prems have "pos \<le> lim" by simp
  with Nil.prems(2) have "substring (take lim full) pos lim = take (lim - pos) (drop pos (take lim full))"
    "substring full pos lim = take (lim - pos) (drop pos full)"
    by (simp_all add: substring_le)
  then show ?case by (simp add: drop_take)
next
  case (Cons c cs)
  from Cons.prems have f: "frames_from full (endIndex c) cs lim" and ps: "pos \<le> startIndex c"
    and se: "startIndex c + 5 \<le> endIndex c" by simp_all
  from frames_from_le [OF f] have el: "endIndex c \<le> lim" .
  from ps se el Cons.prems(2) have "substring (take lim full) pos (startIndex c) = take (startIndex c - pos) (drop pos (take lim full))"
    "substring full pos (startIndex c) = take (startIndex c - pos) (drop pos full)"
    by (simp_all add: substring_le)
  moreover from se el have "min (startIndex c - pos) (lim - pos) = startIndex c - pos" by simp
  ultimately have "substring (take lim full) pos (startIndex c) = substring full pos (startIndex c)"
    by (simp add: drop_take)
  with Cons.IH [OF f Cons.prems(2)] show ?case by simp
qed

text \<open>
  What the parser and the sequential path do with a partial frame. For every chunk, with
  \<open>fullData\<close> the working text: (1) when a start marker stands at an index \<open>s\<close> of the
  working text and no end marker is found from \<open>s\<close> on, the parser holds pending text, and
  that text begins at or before \<open>s\<close>; (2) pending text begins with a start marker and holds
  no end marker; (3) the working text is some text followed by the pending text, and
  \<open>cleanedData\<close> is made of that first text alone, the segments outside the command ranges;
  (4) whenever \<^const>\<open>processDataSequentially\<close> returns for the result, the text it returns
  followed by the pending text is the working text after the last command, so the returned
  tail stops at the start marker of the partial frame.
\<close>

lemma partial_frame_buffered:
  assumes "kitty_extract p data = (res, p')"
  shows "(\<forall>s. prefix APC_START (drop s (fullData res)) \<and> indexOf (fullData res) ST s = None
            \<longrightarrow> pendingData p' \<noteq> []
                \<and> length (fullData res) - length (pendingData p') \<le> s)
       \<and> (pendingData p' \<noteq> [] \<longrightarrow>
            prefix APC_START (pendingData p') \<and> indexOf (pendingData p') ST 0 = None)
       \<and> (\<exists>before. fullData res = before @ pendingData p'
            \<and> cleanedData res = outside_text before (commands res) 0 (length before))
       \<and> (\<forall>env m tail_text m'.
            parser m = p' \<and> commands res \<noteq> []
            \<and> processDataSequentially env res m = Some (Inr (tail_text, m'))
            \<longrightarrow> tail_text @ pendingData p' = drop (endIndex (last (commands res))) (fullData res)
                \<and> parser m' = p')"
proof -
  define full where "full = fullData res"
  obtain cleaned cmds pend where loop: "extract_loop full 0 [] [] = (cleaned, cmds, pend)"
    by (cases "extract_loop full 0 [] []") auto
  from assms have r: "cleanedData res = cleaned" "commands res = cmds" "pendingData p' = pend"
    using loop unfolding full_def
    by (auto simp: kitty_extract_def Let_def split: prod.splits if_splits)
  define lim where "lim = length full - length pend"
  from extract_loop_frames [OF loop] have
    fr: "frames_from full 0 cmds lim" and
    cl: "cleaned = outside_text full cmds 0 lim" and
    pd: "pend = drop lim full" and
    pn: "pend \<noteq> [] \<longrightarrow> indexOf full APC_START (last_pos 0 cmds) = Some lim
          \<and> indexOf full ST lim = None"
    by (auto simp: lim_def)
  have ll: "lim \<le> length full" by (simp add: lim_def)
  have c1: "pend \<noteq> [] \<and> lim \<le> s"
    if "prefix APC_START (drop s full)" "indexOf full ST s = None" for s
    using extract_loop_unmatched [OF loop _ that] by (simp add: lim_def)
  have c2: "prefix APC_START pend \<and> indexOf pend ST 0 = None" if "pend \<noteq> []"
  proof -
    from pn that have a: "indexOf full APC_START (last_pos 0 cmds) = Some lim"
      and b: "indexOf full ST lim = None" by auto
    from indexOf_SomeD(2) [OF a] have "prefix APC_START pend" by (subst pd)
    moreover from b have "indexOf pend ST 0 = None" by (subst pd) (simp add: indexOf_def)
    ultimately show ?thesis by simp
  qed
  have c3: "full = take lim full @ pend
     \<and> cleaned = outside_text (take lim full) cmds 0 (length (take lim full))"
  proof -
    have "full = take lim full @ pend" by (subst pd) simp
    moreover have "length (take lim full) = lim" using ll by simp
    ultimately show ?thesis using outside_text_take [OF fr ll] cl by simp
  qed
  have c4: "\<forall>env m tail_text m'.
            parser m = p' \<and> cmds \<noteq> []
            \<and> processDataSequentially env res m = Some (Inr (tail_text, m'))
            \<longrightarrow> tail_text @ pend = drop (endIndex (last cmds)) full \<and> parser m' = p'"
  proof (intro allI impI, elim conjE)
    fix env m tail_text m'
    assume pm: "parser m = p'" and ne: "cmds \<noteq> []"
      and run: "processDataSequentially env res m = Some (Inr (tail_text, m'))"
    from run obtain le m1 where sl: "sequential_loop env full cmds 0 m = Some (Inr (le, m1))"
      unfolding processDataSequentially_def full_def r(2)
      by (auto split: option.splits sum.splits)
    from sequential_loop_result [OF sl] ne have p1: "parser m1 = parser m"
      and le: "le = endIndex (last cmds)" by (auto simp: last_pos_def)
    from frames_from_props [OF fr] ne have "endIndex (last cmds) \<le> lim"
      by (metis last_in_set)
    with le have lel: "le \<le> lim" by simp
    from run sl have tx: "tail_text = (if hasPendingData (parser m1)
                  then (case indexOf (drop le full) APC_START 0 of
                          Some apcStart \<Rightarrow> substring (drop le full) 0 apcStart
                        | None \<Rightarrow> drop le full)
                  else drop le full)" and mm: "m' = m1"
      unfolding processDataSequentially_def full_def r(2)
      by (auto simp: Let_def)
    show "tail_text @ pend = drop (endIndex (last cmds)) full \<and> parser m' = p'"
    proof (cases "pend = []")
      case True
      with p1 pm r(3) have "\<not> hasPendingData (parser m1)" by (simp add: hasPendingData_def)
      with tx True mm p1 pm le show ?thesis by simp
    next
      case False
      with p1 pm r(3) have hp: "hasPendingData (parser m1)" by (simp add: hasPendingData_def)
      from pn False ne le have "indexOf full APC_START le = Some lim" by (simp add: last_pos_def)
      then have "index_of APC_START (drop le full) = Some (lim - le)"
        by (auto simp: indexOf_def)
      then have ix: "indexOf (drop le full) APC_START 0 = Some (lim - le)"
        by (simp add: indexOf_def)
      have "substring (drop le full) 0 (lim - le) = take (lim - le) (drop le full)"
        using lel ll by (simp add: substring_le)
      with tx hp ix have "tail_text = take (lim - le) (drop le full)" by simp
      moreover have "pend = drop (lim - le) (drop le full)" using pd lel by simp
      ultimately have "tail_text @ pend = drop le full"
        by (simp only: append_take_drop_id)
      with le mm p1 pm show ?thesis by simp
    qed
  qed
  from c3 have c3': "\<exists>before. full = before @ pend
      \<and> cleaned = outside_text before cmds 0 (length before)" by blast
  show ?thesis
    unfolding r full_def [symmetric]
    using c1 c2 c3' c4 unfolding lim_def by blast
qed

lemma sample_sequential:
  "processDataSequentially sample_env sample_result sample_manager =
     Some (Inr (''cd'', sample_manager \<lparr> nextImageId := 2, wasmWrites := [''ab''] \<rparr>))"
  by code_simp

text \<open>
  Claim C1. The path of \<^const>\<open>processData\<close> for a chunk without a complete command does
  not hold the partial frame back. For every chunk whose extraction finds no command and
  leaves pending text, \<^const>\<open>processData\<close> returns the chunk as it is after the two
  stripping passes, while the parser holds the partial frame as pending; with a parser that
  held nothing before and no multiplexer wrapper in the chunk, the text returned ends with
  the partial frame, start marker included. The sequential path cuts the same frame off
  (\<open>partial_frame_buffered\<close>, part 4), and the fallback path returns \<open>cleanedData\<close>,
  which leaves it out (part 3).
\<close>

theorem partial_frame_surfaced:
  assumes en: "enabled m"
    and ex: "kitty_extract (parser m) (stripUnicodePlaceholders (stripEchoedResponses data))
               = (res, p')"
    and nc: "commands res = []"
    and pf: "pendingData p' \<noteq> []"
  shows "processData env data m
           = Some (Inr (stripUnicodePlaceholders (stripEchoedResponses data), m\<lparr> parser := p' \<rparr>))
       \<and> prefix APC_START (pendingData p')
       \<and> (pendingData (parser m) = []
            \<and> \<not> str_includes (stripUnicodePlaceholders (stripEchoedResponses data))
                   TMUX_PASSTHROUGH_START
            \<longrightarrow> suffix (pendingData p') (stripUnicodePlaceholders (stripEchoedResponses data)))"
proof -
  define d where "d = stripUnicodePlaceholders (stripEchoedResponses data)"
  note b = partial_frame_buffered [OF ex [folded d_def]]
  from b pf have pa: "prefix APC_START (pendingData p')" by blast
  from b obtain before where fb: "fullData res = before @ pendingData p'" by blast
  have hg: "hasGraphics res = (commands res \<noteq> [])"
    using ex by (auto simp: kitty_extract_def Let_def split: prod.splits)
  have full: "fullData res = d"
    if "pendingData (parser m) = []" "\<not> str_includes d TMUX_PASSTHROUGH_START"
    using ex that unfolding d_def [symmetric]
    by (auto simp: kitty_extract_def Let_def split: prod.splits)
  have late: "hasGraphicsSequence d \<or> hasPendingData (parser m)"
  proof (rule ccontr)
    assume "\<not> (hasGraphicsSequence d \<or> hasPendingData (parser m))"
    then have na: "\<not> str_includes d APC_START" and nt: "\<not> str_includes d TMUX_PASSTHROUGH_START"
      and np: "pendingData (parser m) = []"
      by (simp_all add: hasGraphicsSequence_def hasPendingData_def)
    from full [OF np nt] fb have "d = before @ pendingData p'" by simp
    with pa have "prefix APC_START (drop (length before) d)" by simp
    from indexOf_occurs [OF this, of 0] na show False by (auto simp: str_includes_def)
  qed
  have run: "processData env data m = Some (Inr (d, m\<lparr> parser := p' \<rparr>))"
    using en late ex [folded d_def] hg nc
    by (auto simp: processData_def Let_def d_def [symmetric])
  have sf: "suffix (pendingData p') d"
    if "pendingData (parser m) = []" "\<not> str_includes d TMUX_PASSTHROUGH_START"
    using full [OF that] fb by (auto simp: suffix_def)
  from run pa sf show ?thesis unfolding d_def by blast
qed

lemma partial_chunk_extract:
  "kitty_extract (parser plain_manager)
     (stripUnicodePlaceholders (stripEchoedResponses partial_chunk))
   = (\<lparr> cleanedData = ''ab'', commands = [], hasGraphics = False, fullData = partial_chunk \<rparr>,
      \<lparr> pendingData = APC_START @ ''a=t,i=1,f=100'' \<rparr>)"
  by code_simp

lemma partial_chunk_facts:
  "enabled plain_manager"
  "pendingData (parser plain_manager) = []"
  "stripUnicodePlaceholders (stripEchoedResponses partial_chunk) = partial_chunk"
  "\<not> str_includes partial_chunk TMUX_PASSTHROUGH_START"
  by code_simp+

lemma sample_chunk_run:
  "map_option (map_sum fst (\<lambda>(t, m). (t, wasmWrites m, pendingData (parser m))))
     (processData sample_env sample_chunk plain_manager)
   = Some (Inr (''cd'', [''ab''], APC_START @ ''a=t''))"
  by code_simp

theorem partial_frame_surfaced_witness:
  "processData sample_env partial_chunk plain_manager
     = Some (Inr (partial_chunk,
                  plain_manager\<lparr> parser := \<lparr> pendingData = APC_START @ ''a=t,i=1,f=100'' \<rparr> \<rparr>))
   \<and> suffix (APC_START @ ''a=t,i=1,f=100'') partial_chunk
   \<and> map_option (map_sum fst (\<lambda>(t, m). (t, wasmWrites m, pendingData (parser m))))
         (processData sample_env sample_chunk plain_manager)
       = Some (Inr (''cd'', [''ab''], APC_START @ ''a=t''))"
  using partial_frame_surfaced [OF partial_chunk_facts(1) partial_chunk_extract, of sample_env]
    partial_chunk_facts sample_chunk_run
  by simp

section \<open>Incomplete multiplexer wrapper\<close>

text \<open>
  Claim C4, evaluated on a wrapper cut in two. For the first chunk the loop of
  \<^const>\<open>unwrap_loop\<close> finds no terminator and appends the wrapper as it is to its result;
  the scan for frames then emits the first eight characters of the wrapper as cleaned text
  and holds the text from the inner start marker on as pending. With the second chunk the
  working text has no wrapper start marker any more, so it is not unwrapped: the command
  gets the payload \<^verbatim>\<open>data\<close> followed by an escape character and the outer terminator is
  emitted as cleaned text, where the two chunks in one give the payload \<^verbatim>\<open>data\<close> and no
  cleaned text.
\<close>

theorem incomplete_wrapper_not_buffered:
  "cleanedData (fst (kitty_extract \<lparr> pendingData = [] \<rparr> tmux_first_chunk)) = TMUX_PASSTHROUGH_START
   \<and> pendingData (snd (kitty_extract \<lparr> pendingData = [] \<rparr> tmux_first_chunk)) = APC_START @ ''a=T;da''
   \<and> map (payload \<circ> command)
         (commands (fst (kitty_extract (snd (kitty_extract \<lparr> pendingData = [] \<rparr> tmux_first_chunk))
                            tmux_second_chunk)))
       = [Some (''data'' @ [ESC])]
   \<and> cleanedData (fst (kitty_extract (snd (kitty_extract \<lparr> pendingData = [] \<rparr> tmux_first_chunk))
                            tmux_second_chunk)) = ST
   \<and> map (payload \<circ> command)
         (commands (fst (kitty_extract \<lparr> pendingData = [] \<rparr> (tmux_first_chunk @ tmux_second_chunk))))
       = [Some ''data'']
   \<and> cleanedData (fst (kitty_extract \<lparr> pendingData = [] \<rparr> (tmux_first_chunk @ tmux_second_chunk))) = []"
  by code_simp


section \<open>Placements in a range of rows\<close>









section \<open>The memory total\<close>

lemma same_images_refl [simp]: "same_images s s"
  by (simp add: same_images_def)

lemma same_images_trans: "same_images s s' \<Longrightarrow> same_images s' s'' \<Longrightarrow> same_images s s''"
  by (simp add: same_images_def)


lemma removePlacement_same: "same_images s (snd (removePlacement key s))"
  by (simp add: removePlacement_def same_images_def Let_def split: option.split)

lemma foldl_same:
  assumes "\<And>st x. same_images st (f st x)"
  shows "same_images s (foldl f s xs)"
proof (induction xs arbitrary: s)
  case Nil
  show ?case by simp
next
  case (Cons x xs)
  from same_images_trans [OF assms [of s x] Cons.IH [of "f s x"]] show ?case by simp
qed








lemma sum_delete:
  "distinct (map fst al) \<Longrightarrow> map_of al k = Some v \<Longrightarrow>
   sum_list (map (\<lambda>(k, img). byteSize img) (AList.delete k al))
     = sum_list (map (\<lambda>(k, img). byteSize img) al) - byteSize v"
proof (induction al)
  case Nil
  then show ?case by simp
next
  case (Cons a al)
  obtain k' v' where a: "a = (k', v')" by (cases a)
  show ?case
  proof (cases "k' = k")
    case True
    with Cons.prems a have "v' = v" "k \<notin> fst ` set al" by auto
    then have "AList.delete k al = al" by (simp add: delete_id)
    with True a \<open>v' = v\<close> show ?thesis by (simp add: AList.delete_eq)
  next
    case False
    with Cons a show ?thesis by (simp add: AList.delete_eq)
  qed
qed

lemma update_fresh: "k \<notin> fst ` set al \<Longrightarrow> AList.update k v al = al @ [(k, v)]"
  by (induction al) auto

lemma sum_update_same:
  "map_of al k = Some v0 \<Longrightarrow> byteSize v = byteSize v0 \<Longrightarrow>
   sum_list (map (\<lambda>(k, img). byteSize img) (AList.update k v al))
     = sum_list (map (\<lambda>(k, img). byteSize img) al)"
  by (induction al) (auto split: if_splits)

lemma keys_delete: "map fst (AList.delete k al) = removeAll k (map fst al)"
  by (induction al) (auto simp: AList.delete_eq)

lemma keys_update_same: "map_of al k = Some v0 \<Longrightarrow> map fst (AList.update k v al) = map fst al"
  by (induction al) (auto split: if_splits)

lemma filter_remove1: "filter P (remove1 x xs) = (if P x then remove1 x (filter P xs) else filter P xs)"
  by (induction xs) auto

text \<open>What \<^const>\<open>removeImage\<close> does to the images, on a consistent store.\<close>

lemma removeImage_present:
  assumes "store_ok s" and "map_of (images s) ident = Some img"
  shows "images (snd (removeImage ident s)) = AList.delete ident (images s)"
    and "accessOrder (snd (removeImage ident s)) = splice_first ident (accessOrder s)"
    and "memoryUsage (snd (removeImage ident s)) = memoryUsage s - byteSize img"
    and "maxImages (snd (removeImage ident s)) = maxImages s"
    and "maxMemory (snd (removeImage ident s)) = maxMemory s"
    and "store_ok (snd (removeImage ident s))"
proof -
  define s1 where "s1 = foldl (\<lambda>st (key, placement).
                             if strict_eq (p_imageId placement) ident
                             then snd (removePlacement key st)
                             else st) s (placements s)"
  have sm: "same_images s s1"
    unfolding s1_def by (auto intro!: foldl_same simp: removePlacement_same split: prod.split)
  have r: "snd (removeImage ident s) = s1\<lparr> memoryUsage := memoryUsage s1 - byteSize img,
                         accessOrder := splice_first ident (accessOrder s1),
                         images := AList.delete ident (images s1) \<rparr>"
    using assms(2) by (simp add: removeImage_def Let_def s1_def)
  from sm r show i: "images (snd (removeImage ident s)) = AList.delete ident (images s)"
    and a: "accessOrder (snd (removeImage ident s)) = splice_first ident (accessOrder s)"
    and m: "memoryUsage (snd (removeImage ident s)) = memoryUsage s - byteSize img"
    and "maxImages (snd (removeImage ident s)) = maxImages s"
    and "maxMemory (snd (removeImage ident s)) = maxMemory s"
    by (simp_all add: same_images_def)
  from assms(1) have d: "distinct (map fst (images s))"
    "memoryUsage s = total_byteSize s"
    "distinct (filter (\<lambda>i. i \<noteq> NaN) (accessOrder s))"
    "\<forall>i\<in>set (accessOrder s). i \<noteq> NaN \<longrightarrow> i \<in> set (map fst (images s))"
    by (simp_all add: store_ok_def)
  have o1: "distinct (filter (\<lambda>i. i \<noteq> NaN) (splice_first ident (accessOrder s)))"
    using d(3) by (simp add: splice_first_def filter_remove1)
  have o2: "i \<in> set (removeAll ident (map fst (images s)))"
    if "i \<in> set (splice_first ident (accessOrder s))" "i \<noteq> NaN" for i
  proof (cases "ident = NaN")
    case True
    with that d(4) show ?thesis by (auto simp: splice_first_def)
  next
    case False
    from that(1) False have ia: "i \<in> set (remove1 ident (accessOrder s))"
      by (simp add: splice_first_def)
    then have "i \<in> set (accessOrder s)" using set_remove1_subset by fast
    with that(2) d(4) have ik: "i \<in> set (map fst (images s))" by blast
    have "i \<noteq> ident"
    proof
      assume e: "i = ident"
      from ia that(2) have "i \<in> set (filter (\<lambda>i. i \<noteq> NaN) (remove1 ident (accessOrder s)))" by simp
      with False e have "ident \<in> set (remove1 ident (filter (\<lambda>i. i \<noteq> NaN) (accessOrder s)))"
        by (simp add: filter_remove1)
      with d(3) show False by simp
    qed
    with ik show ?thesis by simp
  qed
  show "store_ok (snd (removeImage ident s))"
    unfolding store_ok_def i a m total_byteSize_def
    using d(1,2) sum_delete [OF d(1) assms(2)] o1 o2
    by (simp add: keys_delete distinct_removeAll total_byteSize_def)
qed

lemma removeImage_absent:
  "map_of (images s) ident = None \<Longrightarrow> snd (removeImage ident s) = s"
  by (simp add: removeImage_def)





lemma store_fresh_ok:
  assumes "store_ok s" and "map_of (images s) ident = None"
  shows "store_ok (s\<lparr> images := AList.update ident img (images s),
                        accessOrder := accessOrder s @ [ident],
                        memoryUsage := memoryUsage s + byteSize img \<rparr>)"
proof -
  from assms(2) have f: "ident \<notin> fst ` set (images s)" by (simp add: map_of_eq_None_iff)
  with assms(1) have "ident \<noteq> NaN \<Longrightarrow> ident \<notin> set (accessOrder s)"
    by (auto simp: store_ok_def)
  with f assms(1) show ?thesis
    by (auto simp: store_ok_def update_fresh total_byteSize_def)
qed



lemma getImage_ok:
  assumes "store_ok s"
  shows "store_ok (snd (getImage ident now s))"
proof (cases "map_of (images s) ident")
  case None
  with assms show ?thesis by (simp add: getImage_def)
next
  case (Some img)
  from assms have d: "distinct (map fst (images s))"
    "memoryUsage s = total_byteSize s"
    "distinct (filter (\<lambda>i. i \<noteq> NaN) (accessOrder s))"
    "\<forall>i\<in>set (accessOrder s). i \<noteq> NaN \<longrightarrow> i \<in> set (map fst (images s))"
    by (simp_all add: store_ok_def)
  from Some have ik: "ident \<in> set (map fst (images s))"
    by (metis map_of_eq_None_iff option.distinct(1) set_map)
  have su: "sum_list (map (\<lambda>(k, img). byteSize img) (AList.update ident (img\<lparr> lastAccessed := now \<rparr>) (images s)))
      = sum_list (map (\<lambda>(k, img). byteSize img) (images s))"
    by (rule sum_update_same [OF Some]) simp
  have sub: "i \<in> set (accessOrder s)" if "i \<in> set (remove1 ident (accessOrder s))" for i
    using that set_remove1_subset by fast
  show ?thesis
  proof (cases "ident \<noteq> NaN \<and> ident \<in> set (accessOrder s)")
    case False
    with d su Some show ?thesis
      by (auto simp: getImage_def Let_def store_ok_def total_byteSize_def keys_update_same)
  next
    case True
    then have nn: "ident \<noteq> NaN" by simp
    have dd: "distinct (filter (\<lambda>i. i \<noteq> NaN) (remove1 ident (accessOrder s) @ [ident]))"
      using d(3) nn by (simp add: filter_remove1)
    have "accessOrder (snd (getImage ident now s)) = remove1 ident (accessOrder s) @ [ident]"
      "images (snd (getImage ident now s)) = AList.update ident (img\<lparr> lastAccessed := now \<rparr>) (images s)"
      "memoryUsage (snd (getImage ident now s)) = memoryUsage s"
      using True Some by (simp_all add: getImage_def Let_def splice_first_def)
    with d su Some dd ik sub show ?thesis
      by (auto simp: store_ok_def total_byteSize_def keys_update_same)
  qed
qed

lemma new_storage_ok: "store_ok (new_storage options)"
  by (simp add: new_storage_def store_ok_def total_byteSize_def)










text \<open>With a NaN in the access order a call of \<^const>\<open>storeImage\<close> can fail to return.\<close>

lemma evict_count_spins:
  assumes "evict_count s0 = Some s0'"
  shows "\<not> stuck s0"
proof (rule evict_count.raw_induct [where P = "\<lambda>s s'. \<not> stuck s", OF _ assms])
  fix ec s s'
  assume ih: "\<And>x y. ec x = Some y \<Longrightarrow> \<not> stuck x"
    and body: "(if maxImages s \<le> int (length (images s)) \<and> 0 < length (accessOrder s)
         then ec (snd (removeImage (hd (accessOrder s)) s)) else Some s) = Some s'"
  show "\<not> stuck s"
  proof
    assume a: "stuck s"
    then have "snd (removeImage (hd (accessOrder s)) s) = s"
      by (simp add: removeImage_absent stuck_def)
    with body a have "ec s = Some s'" by (simp add: stuck_def)
    from ih [OF this] a show False by simp
  qed
qed

lemma stale_store_reachable: "reachable stale_store"
proof -
  have a: "run_op (StoreImage NaN 100 1 1 [7] None 5)
             (new_storage (default_options \<lparr> opt_maxImages := Some 1 \<rparr>))
           = Some ((new_storage (default_options \<lparr> opt_maxImages := Some 1 \<rparr>))
       \<lparr> images := [(NaN, \<lparr> si_id = NaN, si_format = 100, si_width = 1, si_height = 1,
                           si_data = [7], si_bitmap = None, byteSize = 1, lastAccessed = 5 \<rparr>)],
         accessOrder := [NaN], memoryUsage := 1 \<rparr>)"
    by code_simp
  have b: "run_op (StoreImage (Num 2) 100 1 1 [7] None 6)
            ((new_storage (default_options \<lparr> opt_maxImages := Some 1 \<rparr>))
       \<lparr> images := [(NaN, \<lparr> si_id = NaN, si_format = 100, si_width = 1, si_height = 1,
                           si_data = [7], si_bitmap = None, byteSize = 1, lastAccessed = 5 \<rparr>)],
         accessOrder := [NaN], memoryUsage := 1 \<rparr>) = Some stale_store"
    by code_simp
  from reachable.step [OF reachable.step [OF reachable.start a] b] show ?thesis .
qed

lemma stale_store_spins:
  "run_op (StoreImage ident fmt w h dat bm now) stale_store = None"
proof -
  have "stuck stale_store"
    by (simp add: stuck_def stale_store_def new_storage_def default_options_def)
  with evict_count_spins have "evict_count stale_store = None" by (metis not_Some_eq)
  then show ?thesis by (simp add: storeImage_def evictIfNeeded_def)
qed




section \<open>Eviction of the least recently used image\<close>

lemma evict_count_room:
  "int (length (images s)) < maxImages s \<Longrightarrow> evict_count s = Some s"
  by (subst evict_count.simps) simp

lemma evict_memory_room:
  "memoryUsage s + n \<le> maxMemory s \<Longrightarrow> evict_memory n s = Some s"
  by (subst evict_memory.simps) simp

lemma evict_memory_empty:
  "accessOrder s = [] \<Longrightarrow> evict_memory n s = Some s"
  by (subst evict_memory.simps) simp

lemma keys_sizes: "map fst (sizes s) = map fst (images s)"
  by (simp add: sizes_def split_beta)

text \<open>Storing an image after the eviction has left a store in which its id is new.\<close>

lemma store_args_after:
  assumes e: "evictIfNeeded (int (length (a_data a))) s = Some s1"
    and ok: "store_ok s1"
    and fresh: "a_id a \<notin> set (map fst (images s1))"
  shows "\<exists>s'. store_args a s = Some s' \<and> store_ok s'
        \<and> sizes s' = sizes s1 @ [args_size a]
        \<and> accessOrder s' = accessOrder s1 @ [a_id a]
        \<and> memoryUsage s' = memoryUsage s1 + args_byteSize a
        \<and> maxImages s' = maxImages s1 \<and> maxMemory s' = maxMemory s1"
proof -
  from fresh have none: "map_of (images s1) (a_id a) = None"
    by (simp add: map_of_eq_None_iff)
  from fresh have f: "a_id a \<notin> fst ` set (images s1)" by simp
  define img where "img = \<lparr> si_id = a_id a, si_format = a_format a, si_width = a_width a,
      si_height = a_height a, si_data = a_data a, si_bitmap = a_bitmap a,
      byteSize = int (length (a_data a)) + (if a_bitmap a \<noteq> None then a_width a * a_height a * 4 else 0),
      lastAccessed = a_now a \<rparr>"
  have st: "store_args a s = Some (s1\<lparr> images := AList.update (a_id a) img (images s1),
                        accessOrder := accessOrder s1 @ [a_id a],
                        memoryUsage := memoryUsage s1 + byteSize img \<rparr>)"
    unfolding store_args_def storeImage_def Let_def e img_def
    using none by (simp add: hasImage_def)
  have b: "byteSize img = args_byteSize a" by (simp add: img_def args_byteSize_def)
  from store_fresh_ok [OF ok none, of img] st b show ?thesis
    by (simp add: update_fresh [OF f] sizes_def args_size_def)
qed

lemma store_args_room:
  assumes ok: "store_ok s" and room: "int (length (images s)) < maxImages s"
    and mem: "memoryUsage s + int (length (a_data a)) \<le> maxMemory s \<or> accessOrder s = []"
    and fresh: "a_id a \<notin> set (map fst (images s))"
  shows "\<exists>s'. store_args a s = Some s' \<and> store_ok s'
        \<and> sizes s' = sizes s @ [args_size a]
        \<and> accessOrder s' = accessOrder s @ [a_id a]
        \<and> memoryUsage s' = memoryUsage s + args_byteSize a
        \<and> maxImages s' = maxImages s \<and> maxMemory s' = maxMemory s"
proof -
  from mem have "evict_memory (int (length (a_data a))) s = Some s"
    using evict_memory_room evict_memory_empty by blast
  then have e: "evictIfNeeded (int (length (a_data a))) s = Some s"
    by (simp add: evictIfNeeded_def evict_count_room [OF room])
  from store_args_after [OF e ok fresh] show ?thesis .
qed

lemma store_images_room:
  assumes "store_ok s"
    and "int (length (images s) + length as) \<le> maxImages s"
    and "within_budget (maxMemory s) (memoryUsage s) as"
    and "distinct (map a_id as)"
    and "set (map a_id as) \<inter> set (map fst (images s)) = {}"
  shows "\<exists>s'. store_images as s = Some s' \<and> store_ok s'
        \<and> sizes s' = sizes s @ map args_size as
        \<and> accessOrder s' = accessOrder s @ map a_id as
        \<and> memoryUsage s' = memoryUsage s + sum_list (map args_byteSize as)
        \<and> maxImages s' = maxImages s \<and> maxMemory s' = maxMemory s"
  using assms
proof (induction as arbitrary: s)
  case Nil
  then show ?case by simp
next
  case (Cons a as)
  from Cons.prems(2) have room: "int (length (images s)) < maxImages s" by simp
  from Cons.prems(3)
  have mem: "memoryUsage s + int (length (a_data a)) \<le> maxMemory s \<or> accessOrder s = []"
    and rest: "within_budget (maxMemory s) (memoryUsage s + args_byteSize a) as" by simp_all
  from Cons.prems(5) have fresh: "a_id a \<notin> set (map fst (images s))" by auto
  from store_args_room [OF Cons.prems(1) room mem fresh] obtain s1 where
    s1: "store_args a s = Some s1" "store_ok s1"
      "sizes s1 = sizes s @ [args_size a]"
      "accessOrder s1 = accessOrder s @ [a_id a]"
      "memoryUsage s1 = memoryUsage s + args_byteSize a"
      "maxImages s1 = maxImages s" "maxMemory s1 = maxMemory s" by blast
  from s1(3) have keys: "map fst (images s1) = map fst (images s) @ [a_id a]"
    by (simp add: keys_sizes [symmetric] args_size_def)
  then have len: "length (images s1) = length (images s) + 1"
    by (metis length_append_singleton length_map Suc_eq_plus1)
  have p2: "int (length (images s1) + length as) \<le> maxImages s1"
    using Cons.prems(2) len s1(6) by simp
  have p3: "within_budget (maxMemory s1) (memoryUsage s1) as"
    using rest s1(5,7) by simp
  have p5: "distinct (map a_id as)" using Cons.prems(4) by simp
  have p6: "set (map a_id as) \<inter> set (map fst (images s1)) = {}"
    using Cons.prems(4,5) keys by auto
  from Cons.IH [OF s1(2) p2 p3 p5 p6] obtain s' where
    "store_images as s1 = Some s'" "store_ok s'"
    "sizes s' = sizes s1 @ map args_size as"
    "accessOrder s' = accessOrder s1 @ map a_id as"
    "memoryUsage s' = memoryUsage s1 + sum_list (map args_byteSize as)"
    "maxImages s' = maxImages s1" "maxMemory s' = maxMemory s1" by blast
  with s1 show ?case by simp
qed

lemma sizes_update_same:
  "map_of al k = Some v0 \<Longrightarrow> byteSize v = byteSize v0 \<Longrightarrow>
   map (\<lambda>(k, img). (k, byteSize img)) (AList.update k v al)
     = map (\<lambda>(k, img). (k, byteSize img)) al"
  by (induction al) (auto split: if_splits)

lemma getImage_touch:
  assumes "ident \<in> set (map fst (images s))" and "ident \<in> set (accessOrder s)" and "ident \<noteq> NaN"
  shows "sizes (snd (getImage ident now s)) = sizes s"
    and "accessOrder (snd (getImage ident now s)) = remove1 ident (accessOrder s) @ [ident]"
    and "memoryUsage (snd (getImage ident now s)) = memoryUsage s"
    and "maxImages (snd (getImage ident now s)) = maxImages s"
    and "maxMemory (snd (getImage ident now s)) = maxMemory s"
proof -
  from assms(1) obtain img where img: "map_of (images s) ident = Some img"
    by (metis map_of_eq_None_iff not_Some_eq set_map)
  have "map (\<lambda>(k, img). (k, byteSize img)) (AList.update ident (img\<lparr> lastAccessed := now \<rparr>) (images s))
      = map (\<lambda>(k, img). (k, byteSize img)) (images s)"
    by (rule sizes_update_same [OF img]) simp
  then show "sizes (snd (getImage ident now s)) = sizes s"
    by (simp add: getImage_def img Let_def sizes_def)
  show "accessOrder (snd (getImage ident now s)) = remove1 ident (accessOrder s) @ [ident]"
    using assms(2,3) by (simp add: getImage_def img Let_def splice_first_def)
  show "memoryUsage (snd (getImage ident now s)) = memoryUsage s"
    "maxImages (snd (getImage ident now s)) = maxImages s"
    "maxMemory (snd (getImage ident now s)) = maxMemory s"
    by (simp_all add: getImage_def img Let_def)
qed

lemma sizes_delete:
  "map (\<lambda>(k, img). (k, byteSize img)) (AList.delete x al)
     = filter (\<lambda>(k, b). k \<noteq> x) (map (\<lambda>(k, img). (k, byteSize img)) al)"
  by (induction al) (auto simp: AList.delete_eq)

lemma hasImage_iff: "hasImage x s \<longleftrightarrow> x \<in> set (map fst (images s))"
  by (simp add: hasImage_def map_of_eq_None_iff)

text \<open>Storing into a full store whose least recently used image is \<open>x\<close>.\<close>

lemma store_args_evict:
  assumes ok: "store_ok s" and full: "int (length (images s)) = maxImages s"
    and ao: "accessOrder s = x # xs"
    and bx: "map_of (sizes s) x = Some b"
    and mem: "memoryUsage s - b + int (length (a_data a)) \<le> maxMemory s"
    and fresh: "a_id a \<notin> set (map fst (images s))"
  shows "\<exists>s'. store_args a s = Some s'
        \<and> sizes s' = filter (\<lambda>(k, b). k \<noteq> x) (sizes s) @ [args_size a]"
proof -
  from bx obtain img where img: "map_of (images s) x = Some img" and b: "b = byteSize img"
    by (auto simp: sizes_def map_of_map split_beta)
  define s1 where "s1 = snd (removeImage x s)"
  note p = removeImage_present [OF ok img, folded s1_def]
  from ok have d: "distinct (map fst (images s))" by (simp add: store_ok_def)
  from img have xin: "x \<in> set (map fst (images s))"
    by (metis map_of_eq_None_iff option.distinct(1) set_map)
  have "length (map fst (images s1)) = length (remove1 x (map fst (images s)))"
    using d by (simp add: p(1) keys_delete distinct_remove1_removeAll)
  with xin have len: "length (images s1) = length (images s) - 1"
    by (simp add: length_remove1)
  from xin have pos: "0 < length (images s)" by (cases "images s") auto
  have c1: "evict_count s = evict_count s1"
    unfolding s1_def using full ao by (subst evict_count.simps) simp
  from len pos full p(4) have "int (length (images s1)) < maxImages s1" by linarith
  then have c2: "evict_count s1 = Some s1" by (rule evict_count_room)
  have c3: "evict_memory (int (length (a_data a))) s1 = Some s1"
    using mem p(3,5) b by (intro evict_memory_room) simp
  have e: "evictIfNeeded (int (length (a_data a))) s = Some s1"
    by (simp add: evictIfNeeded_def c1 c2 c3)
  have fresh1: "a_id a \<notin> set (map fst (images s1))"
    using fresh by (simp add: p(1) keys_delete)
  from store_args_after [OF e p(6) fresh1] obtain s' where
    s': "store_args a s = Some s'" "sizes s' = sizes s1 @ [args_size a]" by blast
  have "sizes s1 = filter (\<lambda>(k, b). k \<noteq> x) (sizes s)"
    using sizes_delete [of x "images s"] p(1) by (simp add: sizes_def)
  with s' show ?thesis by simp
qed

text \<open>
  Claim C2, amended. Let the store be constructed with \<open>maxImages = K\<close> and \<open>K \<ge> 2\<close>, let
  \<open>K\<close> images with distinct ids be stored, the first of them, whose id is not NaN, be read
  with \<^const>\<open>getImage\<close>, and one more image with a new id be stored. Let the byte budget
  force no eviction: at each call from the second to the \<open>K\<close>-th the sizes of the images
  stored so far plus the length of the new data stay within \<open>maxMemory\<close>, and so do, at the
  last call, the sizes of the \<open>K\<close> images without the second one plus the length of the new
  data. Then the first image is at the end of the access order when the last image arrives,
  the second image at its head; after the last image exactly \<open>K\<close> images are stored, the
  first image is among them, and the one image missing is the second one, the least recently
  accessed.
\<close>

theorem lru_eviction:
  assumes K: "opt_maxImages options = Some (int K)" and len: "length firstK = K" and two: "2 \<le> K"
    and dist: "distinct (map a_id (firstK @ [extra]))"
    and num: "a_id (hd firstK) \<noteq> NaN"
    and budget: "within_budget (maxMemory (new_storage options)) (args_byteSize (hd firstK))
                   (tl firstK)"
    and last: "sum_list (map args_byteSize firstK) - args_byteSize (hd (tl firstK))
                 + int (length (a_data extra)) \<le> maxMemory (new_storage options)"
  shows "\<exists>s2 s. touched_store options firstK touch_now = Some s2
          \<and> accessOrder s2 = map a_id (tl firstK) @ [a_id (hd firstK)]
          \<and> lru_scenario options firstK touch_now extra = Some s
          \<and> length (images s) = K
          \<and> hasImage (a_id (hd firstK)) s
          \<and> \<not> hasImage (a_id (hd (tl firstK))) s
          \<and> set (map fst (images s)) = set (map a_id (firstK @ [extra])) - {a_id (hd (tl firstK))}"
proof -
  from len two obtain a0 a1 rest where fk: "firstK = a0 # a1 # rest"
    by (cases firstK; cases "tl firstK") auto
  define s0 where "s0 = new_storage options"
  have ok0: "store_ok s0" unfolding s0_def by (rule new_storage_ok)
  have f0: "images s0 = []" "accessOrder s0 = []" "memoryUsage s0 = 0" "maxImages s0 = int K"
    by (simp_all add: s0_def new_storage_def K)
  have d0: "a_id a0 \<notin> set (map fst (images s0))" by (simp add: f0)
  have "\<exists>s'. store_args a0 s0 = Some s' \<and> store_ok s'
        \<and> sizes s' = sizes s0 @ [args_size a0]
        \<and> accessOrder s' = accessOrder s0 @ [a_id a0]
        \<and> memoryUsage s' = memoryUsage s0 + args_byteSize a0
        \<and> maxImages s' = maxImages s0 \<and> maxMemory s' = maxMemory s0"
    using ok0 f0 len two d0 by (intro store_args_room) (simp_all add: fk)
  then obtain sa where sa: "store_args a0 s0 = Some sa" "store_ok sa"
      "sizes sa = [args_size a0]" "accessOrder sa = [a_id a0]"
      "memoryUsage sa = args_byteSize a0"
      "maxImages sa = int K" "maxMemory sa = maxMemory s0"
    using f0 by (auto simp: sizes_def)
  have keysa: "map fst (images sa) = [a_id a0]"
    using sa(3) by (simp add: keys_sizes [symmetric] args_size_def)
  then have lena: "length (images sa) = 1" by (metis length_map length_Cons list.size(3) One_nat_def)
  have "\<exists>s'. store_images (a1 # rest) sa = Some s' \<and> store_ok s'
        \<and> sizes s' = sizes sa @ map args_size (a1 # rest)
        \<and> accessOrder s' = accessOrder sa @ map a_id (a1 # rest)
        \<and> memoryUsage s' = memoryUsage sa + sum_list (map args_byteSize (a1 # rest))
        \<and> maxImages s' = maxImages sa \<and> maxMemory s' = maxMemory sa"
  proof (rule store_images_room [OF sa(2)])
    show "int (length (images sa) + length (a1 # rest)) \<le> maxImages sa"
      using lena len sa(6) by (simp add: fk)
    show "within_budget (maxMemory sa) (memoryUsage sa) (a1 # rest)"
      using budget sa(5,7) by (simp add: fk s0_def)
    show "distinct (map a_id (a1 # rest))" using dist by (simp add: fk)
    show "set (map a_id (a1 # rest)) \<inter> set (map fst (images sa)) = {}"
      using dist keysa by (auto simp: fk)
  qed
  then obtain s1 where s1': "store_images (a1 # rest) sa = Some s1" and s1: "store_ok s1"
      "sizes s1 = map args_size firstK" "accessOrder s1 = map a_id firstK"
      "memoryUsage s1 = sum_list (map args_byteSize firstK)"
      "maxImages s1 = int K" "maxMemory s1 = maxMemory s0"
    using sa by (auto simp: fk)
  have st1: "store_images firstK s0 = Some s1"
    using sa(1) s1' by (simp add: fk)
  have keys1: "map fst (images s1) = map a_id firstK"
    using s1(2) by (simp add: keys_sizes [symmetric] args_size_def o_def)
  define s2 where "s2 = snd (getImage (a_id (hd firstK)) touch_now s1)"
  have in1: "a_id (hd firstK) \<in> set (map fst (images s1))" by (simp add: keys1 fk)
  have in2: "a_id (hd firstK) \<in> set (accessOrder s1)" by (simp add: s1(3) fk)
  note g = getImage_touch [OF in1 in2 num, of touch_now, folded s2_def]
  have ok2: "store_ok s2" unfolding s2_def by (rule getImage_ok [OF s1(1)])
  have t: "touched_store options firstK touch_now = Some s2"
    by (simp add: touched_store_def s0_def [symmetric] st1 s2_def)
  have ao2: "accessOrder s2 = a_id a1 # (map a_id rest @ [a_id a0])"
    using g(2) s1(3) dist by (simp add: fk)
  have keys2: "map fst (images s2) = map a_id firstK"
    using g(1) keys1 by (simp add: keys_sizes [symmetric])
  have full2: "int (length (images s2)) = maxImages s2"
    using keys2 len g(4) s1(5) by (metis length_map)
  have b1: "map_of (sizes s2) (a_id a1) = Some (args_byteSize a1)"
    using g(1) s1(2) dist by (auto simp: fk args_size_def)
  have mem2: "memoryUsage s2 - args_byteSize a1 + int (length (a_data extra)) \<le> maxMemory s2"
    using g(3,5) s1(4,6) last by (simp add: fk s0_def)
  have fresh2: "a_id extra \<notin> set (map fst (images s2))"
    using dist keys2 by auto
  from store_args_evict [OF ok2 full2 ao2 b1 mem2 fresh2] obtain s where
    s: "store_args extra s2 = Some s"
      "sizes s = filter (\<lambda>(k, b). k \<noteq> a_id a1) (sizes s2) @ [args_size extra]" by blast
  have sc: "lru_scenario options firstK touch_now extra = Some s"
    by (simp add: lru_scenario_def t s(1))
  have "a_id a1 \<notin> a_id ` set rest" using dist by (simp add: fk)
  then have "\<forall>q\<in>set (map args_size rest). fst q \<noteq> a_id a1"
    by (auto simp: args_size_def intro: rev_image_eqI)
  then have "filter (\<lambda>(k, b). k \<noteq> a_id a1) (map args_size rest) = map args_size rest"
    by (simp add: filter_id_conv split_beta)
  then have "filter (\<lambda>(k, b). k \<noteq> a_id a1) (sizes s2) = args_size a0 # map args_size rest"
    using g(1) s1(2) dist by (simp add: fk args_size_def)
  with s(2) have sz: "sizes s = args_size a0 # map args_size rest @ [args_size extra]" by simp
  then have keys: "map fst (images s) = a_id a0 # map a_id rest @ [a_id extra]"
    by (simp add: keys_sizes [symmetric] args_size_def o_def)
  then have "length (map fst (images s)) = K" using len by (simp add: fk)
  then have l: "length (images s) = K" by simp
  define A where "A = set (map a_id rest)"
  have ks: "set (map fst (images s)) = insert (a_id a0) (A \<union> {a_id extra})"
    unfolding keys A_def by simp
  have all: "set (map a_id (firstK @ [extra])) = insert (a_id a0) (insert (a_id a1) (A \<union> {a_id extra}))"
    unfolding fk A_def by simp
  have d1: "a_id a1 \<notin> A" "a_id a1 \<noteq> a_id a0" "a_id a1 \<noteq> a_id extra"
    using dist unfolding fk A_def by auto
  have h0: "hasImage (a_id (hd firstK)) s"
    unfolding hasImage_iff ks by (simp add: fk)
  have h1: "\<not> hasImage (a_id (hd (tl firstK))) s"
    unfolding hasImage_iff ks using d1 by (simp add: fk)
  have st: "set (map fst (images s)) = set (map a_id (firstK @ [extra])) - {a_id (hd (tl firstK))}"
    unfolding ks all using d1 by (auto simp: fk)
  from t ao2 sc l h0 h1 st show ?thesis by (simp add: fk)
qed

lemma lru_sample_run:
  "map_option (map fst \<circ> images)
     (lru_scenario (slots 3) [tiny (Num 1), tiny NaN, tiny (Num 3)] 9 (tiny (Num 4)))
   = Some [Num 1, Num 3, Num 4]"
  by code_simp

theorem lru_eviction_witness:
  "opt_maxImages (slots 3) = Some (int 3)
   \<and> length [tiny (Num 1), tiny NaN, tiny (Num 3)] = 3
   \<and> (2 :: nat) \<le> 3
   \<and> distinct (map a_id ([tiny (Num 1), tiny NaN, tiny (Num 3)] @ [tiny (Num 4)]))
   \<and> a_id (hd [tiny (Num 1), tiny NaN, tiny (Num 3)]) \<noteq> NaN
   \<and> within_budget (maxMemory (new_storage (slots 3)))
         (args_byteSize (hd [tiny (Num 1), tiny NaN, tiny (Num 3)]))
         (tl [tiny (Num 1), tiny NaN, tiny (Num 3)])
   \<and> map_option (map fst \<circ> images)
         (lru_scenario (slots 3) [tiny (Num 1), tiny NaN, tiny (Num 3)] 9 (tiny (Num 4)))
       = Some [Num 1, Num 3, Num 4]
   \<and> (\<exists>s2 s. touched_store (slots 3) [tiny (Num 1), tiny NaN, tiny (Num 3)] 9 = Some s2
          \<and> accessOrder s2 = [NaN, Num 3, Num 1]
          \<and> lru_scenario (slots 3) [tiny (Num 1), tiny NaN, tiny (Num 3)] 9 (tiny (Num 4)) = Some s
          \<and> length (images s) = 3
          \<and> hasImage (Num 1) s
          \<and> \<not> hasImage NaN s
          \<and> set (map fst (images s)) = {Num 1, NaN, Num 3, Num 4} - {NaN})"
proof -
  have k: "opt_maxImages (slots 3) = Some (int 3)" by (simp add: slots_def)
  have l: "length [tiny (Num 1), tiny NaN, tiny (Num 3)] = 3" by simp
  have t: "(2 :: nat) \<le> 3" by simp
  have d: "distinct (map a_id ([tiny (Num 1), tiny NaN, tiny (Num 3)] @ [tiny (Num 4)]))"
    by (simp add: tiny_def)
  have n: "a_id (hd [tiny (Num 1), tiny NaN, tiny (Num 3)]) \<noteq> NaN" by (simp add: tiny_def)
  have b: "within_budget (maxMemory (new_storage (slots 3)))
         (args_byteSize (hd [tiny (Num 1), tiny NaN, tiny (Num 3)]))
         (tl [tiny (Num 1), tiny NaN, tiny (Num 3)])"
    by (simp add: tiny_def args_byteSize_def new_storage_def slots_def default_options_def)
  have c: "sum_list (map args_byteSize [tiny (Num 1), tiny NaN, tiny (Num 3)])
             - args_byteSize (hd (tl [tiny (Num 1), tiny NaN, tiny (Num 3)]))
             + int (length (a_data (tiny (Num 4)))) \<le> maxMemory (new_storage (slots 3))"
    by (simp add: tiny_def args_byteSize_def new_storage_def slots_def default_options_def)
  have i: "map a_id [tiny (Num 1), tiny NaN, tiny (Num 3)] = [Num 1, NaN, Num 3]"
    "a_id (tiny (Num 4)) = Num 4" by (simp_all add: tiny_def)
  from lru_eviction [OF k l t d n b c, of 9] k l t d n b lru_sample_run i
  show ?thesis by simp
qed

text \<open>
  Claim C2 as stated fails in three ways. With \<open>maxImages = 1\<close> the image that was read
  is the only one and is evicted. With \<open>maxImages = 2\<close>, a byte budget of 10 and images of
  six bytes, the byte budget evicts as well, and one image remains instead of two. With
  \<open>maxImages = 2\<close> and NaN as the id of the first image, reading that image does not move
  it in the access order, and it is the one evicted.
\<close>

theorem lru_eviction_limits:
  "map_option (map fst \<circ> images) (lru_scenario (slots 1) [tiny (Num 1)] 9 (tiny (Num 2)))
     = Some [Num 2]
   \<and> map_option (map fst \<circ> images)
         (lru_scenario ((slots 2) \<lparr> opt_maxCacheMemory := Some 10 \<rparr>)
            [six_bytes (Num 1), six_bytes (Num 2)] 9 (six_bytes (Num 3))) = Some [Num 3]
   \<and> map_option (map fst \<circ> images)
         (lru_scenario (slots 2) [tiny NaN, tiny (Num 2)] 9 (tiny (Num 3)))
       = Some [Num 2, Num 3]"
  by code_simp

section \<open>Transmissions that fail to decode\<close>

lemma bad_chunked_seen:
  "observed (processData sample_env bad_chunked plain_manager) = Some (Inl RangeError)"
  by code_simp

lemma bad_single_seen:
  "observed (processData sample_env bad_single plain_manager) = Some (Inr (''ef'', [''ab''], [], []))"
  by code_simp

lemma bad_format_seen:
  "observed (processData sample_env bad_format plain_manager) = Some (Inr (''ef'', [''ab''], [], []))"
  by code_simp

lemma no_size_seen:
  "observed (processData sample_env no_size plain_manager) = Some (Inr (''ef'', [''ab''], [], []))"
  by code_simp

lemma good_single_seen:
  "observed (processData sample_env good_single plain_manager)
     = Some (Inr (''ef'', [''ab''], [Num 1], [''1:1002'']))"
  by code_simp

text \<open>
  Claim C8, evaluated. A lone padding character makes \<^const>\<open>base64ToBytes\<close> compute the
  output length \<open>-1\<close> and raise a range error. In a transmission in one piece the error is
  raised inside the \<^verbatim>\<open>try\<close> block of \<^verbatim>\<open>handleTransmit\<close> and is caught, as are the errors
  of a format that does not exist and of raw pixels without width and height: the call
  returns, nothing is stored and nothing is placed. In a transmission in chunks the chunks
  are decoded by \<^const>\<open>combineChunksToBytes\<close> before the \<^verbatim>\<open>try\<close> block, and the same error
  leaves \<^const>\<open>processData\<close> as an exception.
\<close>

theorem chunk_decode_error_escapes:
  "observed (processData sample_env bad_chunked plain_manager) = Some (Inl RangeError)
   \<and> observed (processData sample_env bad_single plain_manager) = Some (Inr (''ef'', [''ab''], [], []))
   \<and> observed (processData sample_env bad_format plain_manager) = Some (Inr (''ef'', [''ab''], [], []))
   \<and> observed (processData sample_env no_size plain_manager) = Some (Inr (''ef'', [''ab''], [], []))
   \<and> observed (processData sample_env good_single plain_manager)
         = Some (Inr (''ef'', [''ab''], [Num 1], [''1:1002'']))"
  using bad_chunked_seen bad_single_seen bad_format_seen no_size_seen good_single_seen
  by blast
end
